theory Spec2Isabelle
  imports Complex_Main "HOL-Library.AList" "HOL-Library.Multiset"
begin

section \<open>JavaScript values and primitives used by src/index.js\<close>

text \<open>
  The module is JavaScript. Its data are JavaScript values, and several of its decisions
  are taken by language primitives (\<open>Number\<close>, \<open>String.prototype.replace\<close>, regular
  expressions, truthiness, lodash's \<open>_.union\<close>). Each primitive is written out here with the
  semantics ECMAScript gives it, restricted to ASCII strings (an Isabelle \<open>char\<close> is a byte).
\<close>

datatype jsnum = NaN | Fin rat | PInf | NInf

datatype jsval =
    Undefined
  | Null
  | Bool bool
  | Num jsnum
  | Str string
  | Arr "jsval list"
  | Obj "(string \<times> jsval) list"

text \<open>ToBoolean. The sign of zero is not represented: \<open>-0\<close> is \<open>Fin 0\<close>.\<close>

fun truthy_num :: "jsnum \<Rightarrow> bool" where
  "truthy_num NaN = False"
| "truthy_num (Fin q) = (q \<noteq> 0)"
| "truthy_num PInf = True"
| "truthy_num NInf = True"

fun truthy :: "jsval \<Rightarrow> bool" where
  "truthy Undefined = False"
| "truthy Null = False"
| "truthy (Bool b) = b"
| "truthy (Num n) = truthy_num n"
| "truthy (Str s) = (s \<noteq> [])"
| "truthy (Arr _) = True"
| "truthy (Obj _) = True"

text \<open>The relational operator \<open>a > b\<close> on numbers: false as soon as one side is NaN.\<close>

fun js_gt :: "jsnum \<Rightarrow> jsnum \<Rightarrow> bool" where
  "js_gt NaN _ = False"
| "js_gt _ NaN = False"
| "js_gt (Fin a) (Fin b) = (b < a)"
| "js_gt (Fin _) PInf = False"
| "js_gt (Fin _) NInf = True"
| "js_gt PInf PInf = False"
| "js_gt PInf _ = True"
| "js_gt NInf _ = False"

subsection \<open>Number(string)\<close>

text \<open>
  \<open>Number(s)\<close> on a string is StringToNumber: surrounding white space is dropped, the
  empty string is 0, and the rest must be a StrNumericLiteral (a signed decimal literal with
  optional fraction and exponent, \<open>Infinity\<close>, or an unsigned \<open>0x\<close>, \<open>0o\<close>, \<open>0b\<close> integer);
  anything else is NaN. The mathematical value is rounded to the nearest binary64 number,
  ties to even.
\<close>

function bit_length :: "int \<Rightarrow> int" where
  "bit_length n = (if n \<le> 0 then 0 else 1 + bit_length (n div 2))"
  by pat_completeness auto
termination
  by (relation "measure nat") auto

declare bit_length.simps [simp del]

definition pow2 :: "int \<Rightarrow> rat" where
  "pow2 k = (if 0 \<le> k then 2 ^ nat k else 1 / 2 ^ nat (- k))"

definition pow10 :: "int \<Rightarrow> rat" where
  "pow10 k = (if 0 \<le> k then 10 ^ nat k else 1 / 10 ^ nat (- k))"

definition binary_exponent :: "rat \<Rightarrow> int" where
  "binary_exponent q =
     (case quotient_of q of (n, d) \<Rightarrow>
        (let e0 = bit_length n - bit_length d
         in if pow2 e0 \<le> q then e0 else e0 - 1))"

definition round_half_even :: "rat \<Rightarrow> int" where
  "round_half_even q =
     (let f = \<lfloor>q\<rfloor>; r = q - of_int f
      in if r < 1 / 2 then f else if 1 / 2 < r then f + 1 else if even f then f else f + 1)"

text \<open>
  Rounding of a non-negative rational to binary64: a 53-bit significand \<open>m\<close> at the scale
  \<open>2^p\<close>, subnormals from \<open>2^-1074\<close>, and infinity once the rounded value reaches
  \<open>2^1024 = 2^53 * 2^971\<close>.
\<close>

definition round_binary64 :: "rat \<Rightarrow> jsnum" where
  "round_binary64 q =
     (if q = 0 then Fin 0
      else (let p = max (binary_exponent q - 52) (- 1074);
                m = round_half_even (q / pow2 p)
            in if 971 < p \<or> (p = 971 \<and> 9007199254740992 \<le> m) then PInf
               else Fin (of_int m * pow2 p)))"

fun js_negate :: "jsnum \<Rightarrow> jsnum" where
  "js_negate NaN = NaN"
| "js_negate (Fin q) = Fin (- q)"
| "js_negate PInf = NInf"
| "js_negate NInf = PInf"

definition is_ws :: "char \<Rightarrow> bool" where
  "is_ws c = (c \<in> set [CHR 0x09, CHR 0x0A, CHR 0x0B, CHR 0x0C, CHR 0x0D, CHR '' ''])"

definition trim :: "string \<Rightarrow> string" where
  "trim s = rev (dropWhile is_ws (rev (dropWhile is_ws s)))"

definition digit_of :: "char \<Rightarrow> int option" where
  "digit_of c =
     (let n = (of_char c :: int)
      in if 48 \<le> n \<and> n \<le> 57 then Some (n - 48)
         else if 97 \<le> n \<and> n \<le> 102 then Some (n - 87)
         else if 65 \<le> n \<and> n \<le> 70 then Some (n - 55)
         else None)"

definition is_digit :: "int \<Rightarrow> char \<Rightarrow> bool" where
  "is_digit b c = (case digit_of c of Some d \<Rightarrow> d < b | None \<Rightarrow> False)"

definition radix_value :: "int \<Rightarrow> string \<Rightarrow> int option" where
  "radix_value b s =
     (if s \<noteq> [] \<and> list_all (is_digit b) s
      then Some (foldl (\<lambda>a c. a * b + (case digit_of c of Some d \<Rightarrow> d | None \<Rightarrow> 0)) 0 s)
      else None)"

definition exponent_part :: "string \<Rightarrow> int option" where
  "exponent_part s =
     (case s of
        [] \<Rightarrow> Some 0
      | c # cs \<Rightarrow>
          if c = CHR ''e'' \<or> c = CHR ''E'' then
            (case cs of
               [] \<Rightarrow> None
             | d # ds \<Rightarrow>
                 if d = CHR ''-'' then map_option uminus (radix_value 10 ds)
                 else if d = CHR ''+'' then radix_value 10 ds
                 else radix_value 10 cs)
          else None)"

definition unsigned_decimal :: "string \<Rightarrow> jsnum" where
  "unsigned_decimal s =
     (if s = ''Infinity'' then PInf
      else
        (let ip = takeWhile (is_digit 10) s;
             r1 = dropWhile (is_digit 10) s;
             fr = (case r1 of
                     [] \<Rightarrow> ([], [])
                   | c # cs \<Rightarrow>
                       if c = CHR ''.''
                       then (takeWhile (is_digit 10) cs, dropWhile (is_digit 10) cs)
                       else ([], r1))
         in case fr of (fp, r2) \<Rightarrow>
              if ip = [] \<and> fp = [] then NaN
              else (case (radix_value 10 (ip @ fp), exponent_part r2) of
                      (Some m, Some k) \<Rightarrow> round_binary64 (of_int m * pow10 (k - int (length fp)))
                    | _ \<Rightarrow> NaN)))"

definition signed_decimal :: "string \<Rightarrow> jsnum" where
  "signed_decimal s =
     (case s of
        [] \<Rightarrow> NaN
      | c # cs \<Rightarrow>
          if c = CHR ''+'' then unsigned_decimal cs
          else if c = CHR ''-'' then js_negate (unsigned_decimal cs)
          else unsigned_decimal s)"

definition radix_literal :: "int \<Rightarrow> string \<Rightarrow> jsnum" where
  "radix_literal b s =
     (case radix_value b s of Some n \<Rightarrow> round_binary64 (of_int n) | None \<Rightarrow> NaN)"

definition js_Number :: "string \<Rightarrow> jsnum" where
  "js_Number s =
     (let t = trim s
      in if t = [] then Fin 0
         else (case t of
                 c # d # r \<Rightarrow>
                   if c = CHR ''0'' \<and> (d = CHR ''x'' \<or> d = CHR ''X'') then radix_literal 16 r
                   else if c = CHR ''0'' \<and> (d = CHR ''o'' \<or> d = CHR ''O'') then radix_literal 8 r
                   else if c = CHR ''0'' \<and> (d = CHR ''b'' \<or> d = CHR ''B'') then radix_literal 2 r
                   else signed_decimal t
               | _ \<Rightarrow> signed_decimal t))"

subsection \<open>Strings and regular expressions\<close>

definition starts_with :: "string \<Rightarrow> string \<Rightarrow> bool" where
  "starts_with p s = (take (length p) s = p)"

text \<open>
  \<open>s.replace(pat, rep)\<close> with a string pattern replaces the first occurrence only, and
  expands the replacement text: \<open>$$\<close> is a dollar, \<open>$&\<close> the matched text, \<open>$`\<close> the text
  before the match and \<open>$'\<close> the text after it (there are no capture groups).
\<close>

fun split_at_first :: "string \<Rightarrow> string \<Rightarrow> (string \<times> string) option" where
  "split_at_first pat [] = (if pat = [] then Some ([], []) else None)"
| "split_at_first pat (c # cs) =
     (if starts_with pat (c # cs) then Some ([], drop (length pat) (c # cs))
      else map_option (\<lambda>(b, a). (c # b, a)) (split_at_first pat cs))"

fun get_substitution :: "string \<Rightarrow> string \<Rightarrow> string \<Rightarrow> string \<Rightarrow> string" where
  "get_substitution m b a [] = []"
| "get_substitution m b a [c] = [c]"
| "get_substitution m b a (c # d # r) =
     (if c = CHR ''$'' \<and> d = CHR ''$'' then CHR ''$'' # get_substitution m b a r
      else if c = CHR ''$'' \<and> d = CHR ''&'' then m @ get_substitution m b a r
      else if c = CHR ''$'' \<and> d = CHR 0x60 then b @ get_substitution m b a r
      else if c = CHR ''$'' \<and> d = CHR 0x27 then a @ get_substitution m b a r
      else c # get_substitution m b a (d # r))"

definition js_replace :: "string \<Rightarrow> string \<Rightarrow> string \<Rightarrow> string" where
  "js_replace s pat rep =
     (case split_at_first pat s of
        None \<Rightarrow> s
      | Some (b, a) \<Rightarrow> b @ get_substitution pat b a rep @ a)"

text \<open>
  \<open>s.replace(/\/{2,}/g, '/')\<close>: every maximal run of two or more slashes becomes one
  slash, that is, a slash followed by a slash is dropped.
\<close>

fun collapse_slashes :: "string \<Rightarrow> string" where
  "collapse_slashes (c # d # r) =
     (if c = CHR ''/'' \<and> d = CHR ''/'' then collapse_slashes (d # r)
      else c # collapse_slashes (d # r))"
| "collapse_slashes s = s"

text \<open>
  The character class \<open>[A-Za-z.-0-1]\<close> of line 165: the letters, the range from \<open>.\<close> to
  \<open>0\<close> (which is \<open>.\<close>, \<open>/\<close> and \<open>0\<close>), the hyphen and \<open>1\<close>.
\<close>

definition vendor_char :: "char \<Rightarrow> bool" where
  "vendor_char c =
     (let n = (of_char c :: nat)
      in (65 \<le> n \<and> n \<le> 90) \<or> (97 \<le> n \<and> n \<le> 122) \<or> (46 \<le> n \<and> n \<le> 48)
         \<or> c = CHR ''-'' \<or> c = CHR ''1'')"

definition json_or_xml :: "string \<Rightarrow> bool" where
  "json_or_xml s =
     (starts_with ''json'' s \<or> starts_with ''xml'' s
      \<or> starts_with ''+json'' s \<or> starts_with ''+xml'' s)"

text \<open>\<open>[A-Za-z.-0-1]*\+?(json|xml)\<close> matched at the start of the string.\<close>

fun vendor_tail :: "string \<Rightarrow> bool" where
  "vendor_tail [] = False"
| "vendor_tail (c # cs) = (json_or_xml (c # cs) \<or> (vendor_char c \<and> vendor_tail cs))"

text \<open>
  \<open>key.match(/application\/[A-Za-z.-0-1]*\+?(json|xml)/)\<close>: the pattern is not anchored,
  so it is searched for at every position of the key.
\<close>

fun media_type_match :: "string \<Rightarrow> bool" where
  "media_type_match [] = False"
| "media_type_match (c # cs) =
     ((starts_with ''application/'' (c # cs) \<and> vendor_tail (drop 12 (c # cs)))
      \<or> media_type_match cs)"

definition to_lower :: "char \<Rightarrow> char" where
  "to_lower c =
     (case map_of (zip ''ABCDEFGHIJKLMNOPQRSTUVWXYZ'' ''abcdefghijklmnopqrstuvwxyz'') c of
        Some l \<Rightarrow> l
      | None \<Rightarrow> c)"

text \<open>
  \<open>/get|post|put|delete/i.test(verb)\<close>: not anchored either, and letters are compared
  without regard to (ASCII) case.
\<close>

fun verb_match :: "string \<Rightarrow> bool" where
  "verb_match [] = False"
| "verb_match (c # cs) =
     ((let t = map to_lower (c # cs)
       in starts_with ''get'' t \<or> starts_with ''post'' t \<or> starts_with ''put'' t
          \<or> starts_with ''delete'' t)
      \<or> verb_match cs)"

text \<open>
  \<open>/^2\d\d$/.test(code)\<close> on a number tests its decimal rendering: exactly the integers
  from 200 to 299 are written as a \<open>2\<close> followed by two digits.
\<close>

fun is_2xx :: "jsnum \<Rightarrow> bool" where
  "is_2xx (Fin q) = (q = of_int \<lfloor>q\<rfloor> \<and> 200 \<le> q \<and> q \<le> 299)"
| "is_2xx _ = False"

section \<open>The specification tree\<close>

text \<open>
  The parser's output (\<open>api.toJSON()\<close>). A JavaScript object whose keys the code
  enumerates (\<open>uriParameters\<close>, \<open>responses\<close>, \<open>body\<close>) is an association list in the
  order of enumeration; an absent property is \<open>None\<close>.
\<close>

record body_node =
  b_schema :: "string option"
  b_example :: jsval

record response_node =
  r_body :: "(string \<times> body_node) list option"

record method_node =
  m_method :: string
  m_responses :: "(string \<times> response_node option) list option"

datatype node =
  Node (relativeUri: "string option")
       (uriParameters: "(string \<times> jsval) list option")
       (methods: "method_node list option")
       (resources: "node list option")

record api =
  version :: "string option"
  root :: node

type_synonym formats = "string list"

section \<open>Effects\<close>

text \<open>
  Everything the module does besides computing values is recorded in a \<open>world\<close> that every
  function takes and returns: the console, the allocation of \<open>RequestMocker\<close> objects (an
  object's identity is the number it was allocated under), the calls of the schema generator,
  the calls of the parser, the invocations of the caller's callback with their argument, and
  the exceptions that nothing catches (thrown in an asynchronous callback or in a promise
  handler).
\<close>

datatype console_entry =
    Console_error string
  | Console_log string
  | Usage_banner
  | Unable_to_parse string
  | Schema_exception string

record candidate =
  code :: jsnum
  schema :: jsval
  example :: jsval

text \<open>
  The two function expressions of lines 134 to 142, as the variables they close over:
  \<open>reqDefinition\<close>, and for the first one \<open>formats\<close> and \<open>ramlfile\<close> too.
\<close>

datatype closure =
    Mock_fn candidate formats string
  | Example_fn candidate

text \<open>
  Modelled from the spec: the class \<open>RequestMocker\<close> of requestMocker.js, which is not among
  the sources. Section 3 gives a bundle its \<open>uri\<close> and \<open>method\<close> (the field
  \<open>httpMethod\<close>, as \<open>method\<close> is reserved), the response map by code
  (\<open>getResponses()\<close>, with \<open>getExamples()\<close> for the stored examples), the \<open>defaultCode\<close> and
  the default mock and example (the properties \<open>mock\<close> and \<open>example\<close>), all unset when the
  object is created. \<open>oid\<close> is the identity of the object.
\<close>

record RequestMocker =
  oid :: nat
  uri :: string
  httpMethod :: string
  responses :: "(jsnum \<times> closure) list"
  examples :: "(jsnum \<times> closure) list"
  mock :: "closure option"
  mock_example :: "closure option"
  defaultCode :: "jsnum option"

record world =
  console :: "console_entry list"
  allocated :: nat
  generator_calls :: "(jsval \<times> formats \<times> string) list"
  parser_calls :: "string list"
  callback_calls :: "RequestMocker list list"
  uncaught :: "string list"

definition console_error :: "string \<Rightarrow> world \<Rightarrow> world" where
  "console_error s w = w\<lparr>console := console w @ [Console_error s]\<rparr>"

definition console_log :: "string \<Rightarrow> world \<Rightarrow> world" where
  "console_log s w = w\<lparr>console := console w @ [Console_log s]\<rparr>"

text \<open>\<open>showUsage\<close> prints the seven lines of the banner.\<close>

definition showUsage :: "world \<Rightarrow> world" where
  "showUsage w = w\<lparr>console := console w @ [Usage_banner]\<rparr>"

text \<open>Modelled from the spec: \<open>new RequestMocker(uri, method)\<close>.\<close>

definition new_RequestMocker :: "string \<Rightarrow> string \<Rightarrow> world \<Rightarrow> RequestMocker \<times> world" where
  "new_RequestMocker u m w =
     (\<lparr>oid = allocated w, uri = u, httpMethod = m, responses = [], examples = [],
       mock = None, mock_example = None, defaultCode = None\<rparr>,
      w\<lparr>allocated := Suc (allocated w)\<rparr>)"

text \<open>
  Modelled from the spec: \<open>addResponse(code, mockFn, exampleFn)\<close> registers the two
  functions under the code (section 4.2, step 2); a code registered twice keeps one entry.
\<close>

definition addResponse :: "jsnum \<Rightarrow> closure \<Rightarrow> closure \<Rightarrow> RequestMocker \<Rightarrow> RequestMocker" where
  "addResponse c f g r =
     r\<lparr>responses := AList.update c f (responses r), examples := AList.update c g (examples r)\<rparr>"

text \<open>
  Calling one of the two functions. Only the first can reach the schema generator
  \<open>schemaMocker\<close> (schema.js, an external collaborator taken as the parameter \<open>gen\<close>), and
  only when the schema is truthy.
\<close>

fun call_closure ::
  "(jsval \<Rightarrow> formats \<Rightarrow> string \<Rightarrow> jsval) \<Rightarrow> closure \<Rightarrow> world \<Rightarrow> jsval \<times> world" where
  "call_closure gen (Mock_fn reqDefinition fmts ramlfile) w =
     (if truthy (schema reqDefinition)
      then (gen (schema reqDefinition) fmts ramlfile,
            w\<lparr>generator_calls := generator_calls w @ [(schema reqDefinition, fmts, ramlfile)]\<rparr>)
      else (Null, w))"
| "call_closure gen (Example_fn reqDefinition) w = (example reqDefinition, w)"

text \<open>
  \<open>_.union(a, b)\<close> keeps the first occurrence of each value of \<open>a\<close> followed by \<open>b\<close>,
  comparing with SameValueZero: two objects are the same value only if they are the same
  object.
\<close>

definition lodash_union :: "RequestMocker list \<Rightarrow> RequestMocker list \<Rightarrow> RequestMocker list" where
  "lodash_union a b =
     foldl (\<lambda>acc x. if oid x \<in> oid ` set acc then acc else acc @ [x]) [] (a @ b)"

section \<open>getResponsesByCode\<close>

text \<open>
  Lines 162 to 169: \<open>body\<close> starts as the \<open>application/json\<close> entry and is overwritten by
  the entry of the first key, in enumeration order, that the pattern matches.
\<close>

definition select_body :: "response_node \<Rightarrow> body_node option" where
  "select_body response =
     (case r_body response of
        None \<Rightarrow> None
      | Some bs \<Rightarrow>
          (case find (\<lambda>(key, _). media_type_match key) bs of
             Some (_, b) \<Rightarrow> Some b
           | None \<Rightarrow> map_of bs ''application/json''))"

text \<open>
  Lines 170 to 180: \<open>schema = body.schema && JSON.parse(body.schema)\<close> inside the \<open>try\<close>.
  \<open>JSON.parse\<close> is the parameter \<open>parse\<close>, \<open>None\<close> when it throws; the \<open>catch\<close> writes
  to the console and leaves \<open>schema\<close> at its initial \<open>null\<close>.
\<close>

definition parse_schema ::
  "(string \<Rightarrow> jsval option) \<Rightarrow> body_node \<Rightarrow> world \<Rightarrow> jsval \<times> world" where
  "parse_schema parse b w =
     (case b_schema b of
        None \<Rightarrow> (Undefined, w)
      | Some s \<Rightarrow>
          if s = [] then (Str [], w)
          else (case parse s of
                  Some v \<Rightarrow> (v, w)
                | None \<Rightarrow>
                    (Null, w\<lparr>console := console w @ [Unable_to_parse s, Schema_exception s]\<rparr>)))"

text \<open>The body of the \<open>_.each\<close> of line 160, for one entry of \<open>responses\<close>.\<close>

definition response_candidate ::
  "(string \<Rightarrow> jsval option) \<Rightarrow> string \<times> response_node option \<Rightarrow> world
    \<Rightarrow> candidate list \<times> world" where
  "response_candidate parse entry w =
     (case entry of (key, response) \<Rightarrow>
        (case response of
           None \<Rightarrow> ([], w)
         | Some r \<Rightarrow>
             (case select_body r of
                None \<Rightarrow> ([], w)
              | Some b \<Rightarrow>
                  if js_Number key \<noteq> NaN then
                    (case parse_schema parse b w of (sch, w') \<Rightarrow>
                       ([\<lparr>code = js_Number key, schema = sch, example = b_example b\<rparr>], w'))
                  else ([], w))))"

fun getResponsesByCode ::
  "(string \<Rightarrow> jsval option) \<Rightarrow> (string \<times> response_node option) list \<Rightarrow> world
    \<Rightarrow> candidate list \<times> world" where
  "getResponsesByCode parse [] w = ([], w)"
| "getResponsesByCode parse (entry # rest) w =
     (case response_candidate parse entry w of (cs, w1) \<Rightarrow>
        (case getResponsesByCode parse rest w1 of (ds, w2) \<Rightarrow> (cs @ ds, w2)))"

section \<open>getRamlRequestsToMockMethods\<close>

text \<open>
  The body of the \<open>_.each\<close> of line 133 for one candidate \<open>reqDefinition\<close>; the state is
  \<open>methodMocker\<close> and \<open>currentMockDefaultCode\<close> (\<open>None\<close> is \<open>null\<close>).
\<close>

definition register_candidate ::
  "formats \<Rightarrow> string \<Rightarrow> RequestMocker \<times> jsnum option \<Rightarrow> candidate
    \<Rightarrow> RequestMocker \<times> jsnum option" where
  "register_candidate fmts ramlfile st reqDefinition =
     (case st of (methodMocker, currentMockDefaultCode) \<Rightarrow>
        (let mm = addResponse (code reqDefinition) (Mock_fn reqDefinition fmts ramlfile)
                    (Example_fn reqDefinition) methodMocker
         in if (case currentMockDefaultCode of
                  None \<Rightarrow> True
                | Some c \<Rightarrow> \<not> truthy_num c \<or> js_gt c (code reqDefinition))
               \<and> is_2xx (code reqDefinition)
            then (mm\<lparr>mock := map_of (responses mm) (code reqDefinition),
                     mock_example := map_of (examples mm) (code reqDefinition)\<rparr>,
                  Some (code reqDefinition))
            else (mm, currentMockDefaultCode)))"

text \<open>
  Lines 149 to 151: \<open>defaultCode\<close> is assigned when \<open>currentMockDefaultCode\<close> is truthy.
\<close>

definition set_defaultCode :: "RequestMocker \<times> jsnum option \<Rightarrow> RequestMocker" where
  "set_defaultCode st =
     (case st of (methodMocker, currentMockDefaultCode) \<Rightarrow>
        (case currentMockDefaultCode of
           None \<Rightarrow> methodMocker
         | Some c \<Rightarrow> if truthy_num c then methodMocker\<lparr>defaultCode := Some c\<rparr> else methodMocker))"

text \<open>
  The body of the \<open>_.each\<close> of line 126 for one method: the bundles it pushes (none or
  one). The guard of line 127 needs a truthy verb that the pattern matches and a truthy
  \<open>responses\<close>; an object is truthy even when it is empty.
\<close>

definition mock_method ::
  "(string \<Rightarrow> jsval option) \<Rightarrow> string \<Rightarrow> formats \<Rightarrow> string \<Rightarrow> method_node \<Rightarrow> world
    \<Rightarrow> RequestMocker list \<times> world" where
  "mock_method parse u fmts ramlfile m w =
     (case m_responses m of
        None \<Rightarrow> ([], w)
      | Some rs \<Rightarrow>
          if m_method m \<noteq> [] \<and> verb_match (m_method m) then
            (case getResponsesByCode parse rs w of (responsesMethodByCode, w1) \<Rightarrow>
               (case new_RequestMocker u (m_method m) w1 of (methodMocker, w2) \<Rightarrow>
                  ([set_defaultCode
                      (foldl (register_candidate fmts ramlfile) (methodMocker, None)
                         responsesMethodByCode)], w2)))
          else ([], w))"

fun each_method ::
  "(string \<Rightarrow> jsval option) \<Rightarrow> string \<Rightarrow> formats \<Rightarrow> string \<Rightarrow> method_node list \<Rightarrow> world
    \<Rightarrow> RequestMocker list \<times> world" where
  "each_method parse u fmts ramlfile [] w = ([], w)"
| "each_method parse u fmts ramlfile (m # ms) w =
     (case mock_method parse u fmts ramlfile m w of (bs, w1) \<Rightarrow>
        (case each_method parse u fmts ramlfile ms w1 of (cs, w2) \<Rightarrow> (bs @ cs, w2)))"

definition getRamlRequestsToMockMethods ::
  "(string \<Rightarrow> jsval option) \<Rightarrow> node \<Rightarrow> string \<Rightarrow> formats \<Rightarrow> string \<Rightarrow> world
    \<Rightarrow> RequestMocker list \<times> world" where
  "getRamlRequestsToMockMethods parse d u fmts ramlfile w =
     each_method parse u fmts ramlfile (case methods d of None \<Rightarrow> [] | Some ms \<Rightarrow> ms) w"

section \<open>getRamlRequestsToMock and getRamlRequestsToMockResources\<close>

text \<open>Lines 90 to 98: the URI of a node, from the URI of its parent.\<close>

definition node_uri :: "node \<Rightarrow> string \<Rightarrow> string" where
  "node_uri d u =
     (case relativeUri d of
        None \<Rightarrow> u
      | Some rel \<Rightarrow>
          if rel = [] then u
          else (let nodeURI =
                      (case uriParameters d of
                         None \<Rightarrow> rel
                       | Some ps \<Rightarrow>
                           foldl (\<lambda>n p. js_replace n (''{'' @ fst p @ ''}'') ('':'' @ fst p))
                             rel ps)
                in collapse_slashes (u @ ''/'' @ nodeURI)))"

text \<open>
  \<open>async.parallel\<close> and \<open>async.each\<close> run their synchronous tasks one after the other, in
  order, so the traversal is a recursion over the tree. \<open>getRamlRequestsToMockResources\<close>
  is given the array \<open>definition.resources\<close> and the value of its variable
  \<open>requestsToMock\<close>, which starts empty.
\<close>

fun getRamlRequestsToMock ::
  "(string \<Rightarrow> jsval option) \<Rightarrow> node \<Rightarrow> string \<Rightarrow> formats \<Rightarrow> string \<Rightarrow> world
    \<Rightarrow> RequestMocker list \<times> world"
and getRamlRequestsToMockResources ::
  "(string \<Rightarrow> jsval option) \<Rightarrow> node list \<Rightarrow> string \<Rightarrow> formats \<Rightarrow> string
    \<Rightarrow> RequestMocker list \<Rightarrow> world \<Rightarrow> RequestMocker list \<times> world" where
  "getRamlRequestsToMock parse (Node rel ps ms rs) u fmts ramlfile w =
     (let d = Node rel ps ms rs; u' = node_uri d u
      in case (case ms of
                 None \<Rightarrow> ([], w)
               | Some _ \<Rightarrow>
                   (case getRamlRequestsToMockMethods parse d u' fmts ramlfile w of
                      (reqs, w1) \<Rightarrow> (lodash_union [] reqs, w1)))
         of (requestsToMock, w1) \<Rightarrow>
              (case rs of
                 None \<Rightarrow> (requestsToMock, w1)
               | Some l \<Rightarrow>
                   (case getRamlRequestsToMockResources parse l u' fmts ramlfile [] w1 of
                      (reqs, w2) \<Rightarrow> (lodash_union requestsToMock reqs, w2))))"
| "getRamlRequestsToMockResources parse [] u fmts ramlfile requestsToMock w =
     (requestsToMock, w)"
| "getRamlRequestsToMockResources parse (d # ds) u fmts ramlfile requestsToMock w =
     (case getRamlRequestsToMock parse d u fmts ramlfile w of (reqs, w1) \<Rightarrow>
        getRamlRequestsToMockResources parse ds u fmts ramlfile
          (lodash_union requestsToMock reqs) w1)"

section \<open>generateFromFiles, generateFromPath and generate\<close>

text \<open>
  The collaborators outside this module: the file system, \<open>path.join\<close>, \<open>glob.sync\<close>, the
  parser \<open>raml.loadApi\<close> (\<open>Inl\<close> when the promise is rejected), \<open>JSON.parse\<close> and the schema
  generator. The promises of \<open>loadApi\<close> settle in an order the module does not choose:
  \<open>arrival\<close> gives, for the files whose load was started, the order in which they settle.
\<close>

record env =
  readdir :: "string \<Rightarrow> string + string list"
  path_join :: "string \<Rightarrow> string \<Rightarrow> string"
  glob_sync :: "string list \<Rightarrow> string list"
  loadApi :: "string \<Rightarrow> string + api"
  arrival :: "string list \<Rightarrow> string list"
  JSON_parse :: "string \<Rightarrow> jsval option"
  schemaMocker :: "jsval \<Rightarrow> formats \<Rightarrow> string \<Rightarrow> jsval"

datatype files_option = Files_array "string list" | Files_other jsval

record options =
  path :: "string option"
  files :: "files_option option"
  useApiVersion :: bool
  formats :: "formats option"

datatype callback = Function | Not_a_function

text \<open>
  \<open>callback(requestsToMock)\<close>: calling what is not a function throws a TypeError.
\<close>

definition call_callback :: "callback \<Rightarrow> RequestMocker list \<Rightarrow> world \<Rightarrow> string option \<times> world" where
  "call_callback cb reqs w =
     (case cb of
        Function \<Rightarrow> (None, w\<lparr>callback_calls := callback_calls w @ [reqs]\<rparr>)
      | Not_a_function \<Rightarrow> (Some ''TypeError: callback is not a function'', w))"

text \<open>Line 69: the URI the traversal of a file starts from.\<close>

definition base_uri :: "options \<Rightarrow> api \<Rightarrow> string" where
  "base_uri opts data =
     ''/'' @ (if useApiVersion opts
              then (case version data of None \<Rightarrow> [] | Some v \<Rightarrow> v) @ ''/''
              else [])"

text \<open>
  The iteratee of \<open>async.each\<close> (lines 65 to 77), run when the load of \<open>file\<close> settles, and
  the final function (lines 78 to 84), which \<open>async.each\<close> calls once: with the first error,
  or with nothing when all \<open>n\<close> files have called \<open>cb()\<close>. The state is \<open>requestsToMock\<close>,
  the number of files done, and whether the final function has been called. An exception in
  the handler of the promise is caught by nothing.
\<close>

fun each_file ::
  "env \<Rightarrow> options \<Rightarrow> formats \<Rightarrow> callback \<Rightarrow> nat \<Rightarrow> string list
    \<Rightarrow> RequestMocker list \<times> nat \<times> bool \<Rightarrow> world \<Rightarrow> world" where
  "each_file e opts fmts cb n [] st w = w"
| "each_file e opts fmts cb n (file # rest) (requestsToMock, completed, called) w =
     (case loadApi e file of
        Inl error \<Rightarrow>
          if called then each_file e opts fmts cb n rest (requestsToMock, completed, called) w
          else each_file e opts fmts cb n rest (requestsToMock, completed, True)
                 (console_log (''Error parsing: '' @ error) w)
      | Inr data \<Rightarrow>
          (case getRamlRequestsToMock (JSON_parse e) (root data) (base_uri opts data) fmts file w
           of (reqs, w1) \<Rightarrow>
             (let requestsToMock' = lodash_union requestsToMock reqs
              in if called
                 then each_file e opts fmts cb n rest (requestsToMock', completed, called) w1
                 else if n \<le> Suc completed
                 then each_file e opts fmts cb n rest (requestsToMock', Suc completed, True)
                        (case call_callback cb requestsToMock' w1 of
                           (None, w2) \<Rightarrow> w2
                         | (Some ex, w2) \<Rightarrow> w2\<lparr>uncaught := uncaught w2 @ [ex]\<rparr>)
                 else each_file e opts fmts cb n rest (requestsToMock', Suc completed, False) w1)))"

text \<open>
  \<open>generateFromFiles\<close>: every load is started at once; with no file at all \<open>async.each\<close>
  calls the final function immediately, and an exception there is thrown to the caller
  (the first component of the result).
\<close>

definition generateFromFiles ::
  "env \<Rightarrow> string list \<Rightarrow> options \<Rightarrow> callback \<Rightarrow> world \<Rightarrow> string option \<times> world" where
  "generateFromFiles e fs opts cb w =
     (let globbed = glob_sync e fs;
          fmts = (case formats opts of None \<Rightarrow> [] | Some f \<Rightarrow> f)
      in if globbed = [] then call_callback cb [] w
         else (None,
               each_file e opts fmts cb (length globbed) (arrival e globbed) ([], 0, False)
                 (w\<lparr>parser_calls := parser_calls w @ globbed\<rparr>)))"

definition ends_with_raml :: "string \<Rightarrow> bool" where
  "ends_with_raml file = (drop (length file - 5) file = ''.raml'')"

text \<open>
  \<open>generateFromPath\<close>: the function given to \<open>fs.readdir\<close> runs later, so what it throws is
  caught by nothing.
\<close>

definition generateFromPath :: "env \<Rightarrow> string \<Rightarrow> options \<Rightarrow> callback \<Rightarrow> world \<Rightarrow> world" where
  "generateFromPath e filesPath opts cb w =
     (case readdir e filesPath of
        Inl err \<Rightarrow> w\<lparr>uncaught := uncaught w @ [err]\<rparr>
      | Inr listing \<Rightarrow>
          (case generateFromFiles e (map (path_join e filesPath) (filter ends_with_raml listing))
                  opts cb w
           of (None, w1) \<Rightarrow> w1
            | (Some ex, w1) \<Rightarrow> w1\<lparr>uncaught := uncaught w1 @ [ex]\<rparr>))"

definition generate :: "env \<Rightarrow> options option \<Rightarrow> callback \<Rightarrow> world \<Rightarrow> world" where
  "generate e options cb w =
     (case options of
        None \<Rightarrow>
          showUsage (console_error (''[RAML-MOCKER] You must define a options object:'' @ [CHR 0x0A]) w)
      | Some opts \<Rightarrow>
          (let w1 = (if cb \<noteq> Function
                     then showUsage (console_error
                            (''[RAML-MOCKER] You must define a callback function:'' @ [CHR 0x0A]) w)
                     else w)
           in case path opts of
                Some (c # cs) \<Rightarrow> generateFromPath e (c # cs) opts cb w1
              | _ \<Rightarrow>
                  (case files opts of
                     Some (Files_array fs) \<Rightarrow>
                       (case generateFromFiles e fs opts cb w1 of
                          (None, w2) \<Rightarrow> w2
                        | (Some ex, w2) \<Rightarrow>
                            showUsage (console_error ex (console_error
                              (''[RAML-MOCKER] A runtime error has ocurred:'' @ [CHR 0x0A]) w2)))
                   | _ \<Rightarrow> w1)))"

section \<open>Notions the properties are stated with\<close>

text \<open>The guard of line 127, as a predicate on a method node.\<close>

definition eligible :: "method_node \<Rightarrow> bool" where
  "eligible m = (m_method m \<noteq> [] \<and> verb_match (m_method m) \<and> m_responses m \<noteq> None)"

text \<open>A response has a body under a media type that the pattern of line 165 matches.\<close>

definition has_matching_body :: "response_node \<Rightarrow> bool" where
  "has_matching_body r =
     (case r_body r of None \<Rightarrow> False | Some bs \<Rightarrow> list_ex (\<lambda>p. media_type_match (fst p)) bs)"

definition yields_candidate :: "string \<times> response_node option \<Rightarrow> bool" where
  "yields_candidate entry =
     (case snd entry of
        None \<Rightarrow> False
      | Some r \<Rightarrow> has_matching_body r \<and> js_Number (fst entry) \<noteq> NaN)"

definition candidate_codes :: "(string \<times> response_node option) list \<Rightarrow> jsnum list" where
  "candidate_codes rs = map (js_Number \<circ> fst) (filter yields_candidate rs)"

text \<open>
  The lowest status code of the 2xx range among a list of codes, in the words of the
  specification (invariant I4); \<open>None\<close> when the list has no such code.
\<close>

fun fin_2xx :: "jsnum \<Rightarrow> rat list" where
  "fin_2xx (Fin q) = (if is_2xx (Fin q) then [q] else [])"
| "fin_2xx _ = []"

definition lowest_2xx :: "jsnum list \<Rightarrow> jsnum option" where
  "lowest_2xx cs =
     (let qs = concat (map fin_2xx cs) in if qs = [] then None else Some (Fin (Min (set qs))))"

text \<open>The state of the loop of line 133 after the candidates with the codes \<open>seen\<close>.\<close>

definition registered :: "jsnum list \<Rightarrow> RequestMocker \<times> jsnum option \<Rightarrow> bool" where
  "registered seen st =
     (case st of (mm, cur) \<Rightarrow>
        cur = lowest_2xx seen \<and> fst ` set (responses mm) = set seen
        \<and> fst ` set (examples mm) = set seen
        \<and> (cur = None \<longrightarrow> mock mm = None \<and> mock_example mm = None)
        \<and> (cur \<noteq> None \<longrightarrow> mock mm \<noteq> None \<and> mock_example mm \<noteq> None)
        \<and> defaultCode mm = None)"

subsection \<open>Sample inputs\<close>

definition world0 :: world where
  "world0 = \<lparr>console = [], allocated = 0, generator_calls = [], parser_calls = [],
             callback_calls = [], uncaught = []\<rparr>"

definition json_body :: "(string \<times> body_node) list" where
  "json_body = [(''application/json'', \<lparr>b_schema = None, b_example = Str ''pong''\<rparr>)]"

text \<open>An API with the one resource \<open>/ping\<close>, whose \<open>GET\<close> documents one status code.\<close>

definition ping_api :: "string \<Rightarrow> api" where
  "ping_api c =
     \<lparr>version = None,
      root = Node None None None
               (Some [Node (Some ''/ping'') None
                        (Some [\<lparr>m_method = ''GET'',
                                m_responses = Some [(c, Some \<lparr>r_body = Some json_body\<rparr>)]\<rparr>])
                        None])\<rparr>"

text \<open>
  A file system with \<open>a.raml\<close> (\<open>/ping\<close> with 200) and \<open>b.raml\<close> (\<open>/ping\<close> with 503); every
  other file fails to parse. Loads settle in the order they were started.
\<close>

definition env0 :: env where
  "env0 =
     \<lparr>readdir = (\<lambda>p. Inr [''a.raml'', ''notes.txt'']),
      path_join = (\<lambda>a b. a @ ''/'' @ b),
      glob_sync = (\<lambda>fs. fs),
      loadApi = (\<lambda>f. if f = ''a.raml'' then Inr (ping_api ''200'')
                      else if f = ''b.raml'' then Inr (ping_api ''503'')
                      else Inl ''unexpected token''),
      arrival = (\<lambda>fs. fs),
      JSON_parse = (\<lambda>s. if s = ''{}'' then Some (Obj []) else None),
      schemaMocker = (\<lambda>s f r. Str ''generated'')\<rparr>"

definition options0 :: "string list \<Rightarrow> options" where
  "options0 fs = \<lparr>path = None, files = Some (Files_array fs), useApiVersion = False, formats = None\<rparr>"

text \<open>The documented responses 404, 201 and 200 of one method, in that order.\<close>

definition responses3 :: "(string \<times> response_node option) list" where
  "responses3 =
     [(''404'', Some \<lparr>r_body = Some json_body\<rparr>), (''201'', Some \<lparr>r_body = Some json_body\<rparr>),
      (''200'', Some \<lparr>r_body = Some json_body\<rparr>)]"

text \<open>
  A valid integer string, in the words of the specification (invariant I2): a non-empty
  sequence of decimal digits.
\<close>

definition integer_string :: "string \<Rightarrow> bool" where
  "integer_string s = (s \<noteq> [] \<and> list_all (is_digit 10) s)"

text \<open>A response whose schema text is not JSON, and a mapping with entries of each kind.\<close>

definition broken_schema_responses :: "(string \<times> response_node option) list" where
  "broken_schema_responses =
     [(''200'', Some \<lparr>r_body = Some [(''application/json'',
                                        \<lparr>b_schema = Some ''{oops'', b_example = Str ''pong''\<rparr>)]\<rparr>)]"

definition mixed_responses :: "(string \<times> response_node option) list" where
  "mixed_responses =
     [(''200'', Some \<lparr>r_body = Some json_body\<rparr>),
      (''default'', Some \<lparr>r_body = Some json_body\<rparr>),
      (''500'', Some \<lparr>r_body = Some [(''text/plain'', \<lparr>b_schema = None, b_example = Str ''down''\<rparr>)]\<rparr>),
      (''204'', None)]"

subsection \<open>The traversal, as the specification describes its result\<close>

text \<open>The two console entries of the \<open>catch\<close> of lines 177 to 180.\<close>

fun is_schema_diag :: "console_entry \<Rightarrow> bool" where
  "is_schema_diag (Unable_to_parse _) = True"
| "is_schema_diag (Schema_exception _) = True"
| "is_schema_diag _ = False"

text \<open>A world after some diagnostics of that kind and the allocation of \<open>n\<close> objects.\<close>

definition advance :: "world \<Rightarrow> console_entry list \<Rightarrow> nat \<Rightarrow> world" where
  "advance w ds n = w\<lparr>console := console w @ ds, allocated := allocated w + n\<rparr>"

text \<open>
  What identifies a bundle and what it answers: its URI, its verb, the codes of its
  response map and its default code. For a method node under the URI \<open>u\<close>, the same
  from the tree.
\<close>

type_synonym summary = "string \<times> string \<times> jsnum set \<times> jsnum option"

definition bundle_summary :: "RequestMocker \<Rightarrow> summary" where
  "bundle_summary b = (uri b, httpMethod b, fst ` set (responses b), defaultCode b)"

definition method_summary :: "string \<Rightarrow> method_node \<Rightarrow> summary" where
  "method_summary u m =
     (let cs = candidate_codes (case m_responses m of None \<Rightarrow> [] | Some rs \<Rightarrow> rs)
      in (u, m_method m, set cs, lowest_2xx cs))"

text \<open>
  One entry per eligible method node of the tree below a node, with the URI resolved for
  the node that declares it: first the node's own methods, then its children, in order.
\<close>

fun node_bundles :: "node \<Rightarrow> string \<Rightarrow> summary list"
and nodes_bundles :: "node list \<Rightarrow> string \<Rightarrow> summary list" where
  "node_bundles (Node rel ps ms rs) u =
     (let u' = node_uri (Node rel ps ms rs) u
      in map (method_summary u') (filter eligible (case ms of None \<Rightarrow> [] | Some l \<Rightarrow> l))
         @ (case rs of None \<Rightarrow> [] | Some l \<Rightarrow> nodes_bundles l u'))"
| "nodes_bundles [] u = []"
| "nodes_bundles (d # ds) u = node_bundles d u @ nodes_bundles ds u"

text \<open>
  A traversal from the world \<open>w\<close> has \<open>collected\<close> the expected entries: it returns one
  fresh object per entry, in order, and otherwise only writes schema diagnostics.
\<close>

definition collected ::
  "RequestMocker list \<times> world \<Rightarrow> world \<Rightarrow> summary list \<Rightarrow> bool" where
  "collected res w expected =
     (\<exists>bs ds. res = (bs, advance w ds (length bs)) \<and> list_all is_schema_diag ds
        \<and> map oid bs = [allocated w ..< allocated w + length bs]
        \<and> map bundle_summary bs = expected)"

text \<open>
  The error of the first file, in the order given, whose load fails; what a file contributes
  when it loads; and the final function of line 78 when called without an error.
\<close>

fun first_error :: "env \<Rightarrow> string list \<Rightarrow> string option" where
  "first_error e [] = None"
| "first_error e (f # fs) =
     (case loadApi e f of Inl err \<Rightarrow> Some err | Inr _ \<Rightarrow> first_error e fs)"

definition file_bundles :: "env \<Rightarrow> options \<Rightarrow> string \<Rightarrow> summary list" where
  "file_bundles e opts f =
     (case loadApi e f of
        Inl _ \<Rightarrow> []
      | Inr data \<Rightarrow> node_bundles (root data) (base_uri opts data))"

definition deliver :: "callback \<Rightarrow> RequestMocker list \<Rightarrow> world \<Rightarrow> world" where
  "deliver cb reqs w =
     (case call_callback cb reqs w of
        (None, w2) \<Rightarrow> w2
      | (Some ex, w2) \<Rightarrow> w2\<lparr>uncaught := uncaught w2 @ [ex]\<rparr>)"

subsection \<open>Invariant I1 of the specification\<close>

text \<open>A URI is normalised when it starts with a slash and has no two slashes in a row.\<close>

fun has_double_slash :: "string \<Rightarrow> bool" where
  "has_double_slash (c # d # r) = ((c = CHR ''/'' \<and> d = CHR ''/'') \<or> has_double_slash (d # r))"
| "has_double_slash _ = False"

definition normalised :: "string \<Rightarrow> bool" where
  "normalised s = (starts_with ''/'' s \<and> \<not> has_double_slash s)"

text \<open>A summary whose default code is the lowest 2xx code of its codes.\<close>

definition consistent :: "summary \<Rightarrow> bool" where
  "consistent s = (case s of (u, v, cs, dc) \<Rightarrow> \<exists>l. cs = set l \<and> dc = lowest_2xx l)"

section \<open>Properties\<close>

subsection \<open>The entry point\<close>

text \<open>
  C10: when \<open>generate\<close> is given an options object and a callback that is a function, and the
  options have no (truthy) \<open>path\<close> and no \<open>files\<close> that is an array, the call changes nothing:
  the callback is not invoked and nothing is written to the console.
\<close>

theorem generate_without_path_or_files:
  assumes "path opts = None \<or> path opts = Some []"
    and "\<forall>fs. files opts \<noteq> Some (Files_array fs)"
  shows "generate e (Some opts) Function w = w"
  using assms
  by (auto simp: generate_def split: option.splits files_option.splits list.splits)

theorem generate_without_path_or_files_witness:
  "generate env0 (Some \<lparr>path = None, files = Some (Files_other (Str ''a.raml'')),
                         useApiVersion = False, formats = None\<rparr>) Function world0 = world0"
  by (rule generate_without_path_or_files) simp_all

subsection \<open>Response candidates and the default response\<close>

lemma mtm_json: "media_type_match ''application/json''" by code_simp

lemma select_body_find:
  "select_body r = (case r_body r of None \<Rightarrow> None | Some bs \<Rightarrow> map_option snd (find (\<lambda>p. media_type_match (fst p)) bs))"
proof (cases "r_body r")
  case None
  then show ?thesis by (simp add: select_body_def)
next
  case (Some bs)
  have eq: "(\<lambda>(key, _). media_type_match key) = (\<lambda>p::string \<times> body_node. media_type_match (fst p))"
    by (simp add: fun_eq_iff split: prod.splits)
  show ?thesis
  proof (cases "find (\<lambda>p. media_type_match (fst p)) bs")
    case None
    then have "\<forall>p \<in> set bs. \<not> media_type_match (fst p)" by (auto simp add: find_None_iff)
    then have "map_of bs ''application/json'' = None"
      using mtm_json by (cases "map_of bs ''application/json''") (auto dest!: map_of_SomeD)
    with None Some show ?thesis by (simp add: select_body_def eq)
  next
    case (Some p)
    with \<open>r_body r = Some bs\<close> show ?thesis by (cases p) (simp add: select_body_def eq)
  qed
qed

lemma select_body_None_iff: "(select_body r = None) = (\<not> has_matching_body r)"
  by (auto simp: select_body_find has_matching_body_def find_None_iff list_ex_iff split: option.splits)

lemma response_candidate_codes:
  "map code (fst (response_candidate parse entry w)) = (if yields_candidate entry then [js_Number (fst entry)] else [])"
  by (cases entry) (auto simp: response_candidate_def yields_candidate_def select_body_None_iff[symmetric] split: option.splits prod.splits)

lemma getResponsesByCode_codes:
  "map code (fst (getResponsesByCode parse rs w)) = map (js_Number \<circ> fst) (filter yields_candidate rs)"
proof (induction rs arbitrary: w)
  case Nil
  then show ?case by simp
next
  case (Cons entry rest)
  obtain cs w1 where a: "response_candidate parse entry w = (cs, w1)" by (cases "response_candidate parse entry w")
  obtain ds w2 where b: "getResponsesByCode parse rest w1 = (ds, w2)" by (cases "getResponsesByCode parse rest w1")
  from a have "map code cs = (if yields_candidate entry then [js_Number (fst entry)] else [])"
    using response_candidate_codes[of parse entry w] by simp
  moreover from b have "map code ds = map (js_Number \<circ> fst) (filter yields_candidate rest)"
    using Cons.IH[of w1] by simp
  ultimately show ?case using a b by simp
qed


lemma fin_2xx_iff: "(fin_2xx k = []) = (\<not> is_2xx k)"
  by (cases k) auto

lemma fin_2xx_Fin: "is_2xx k \<Longrightarrow> \<exists>q. k = Fin q \<and> fin_2xx k = [q] \<and> q \<noteq> 0"
  by (cases k) auto

lemma fin_2xx_nonzero: "q \<in> set (fin_2xx c) \<Longrightarrow> q \<noteq> 0"
  by (cases c) (auto split: if_splits)

lemma lowest_2xx_snoc:
  "lowest_2xx (cs @ [k]) =
     (if is_2xx k \<and> (case lowest_2xx cs of None \<Rightarrow> True | Some c \<Rightarrow> \<not> truthy_num c \<or> js_gt c k)
      then Some k else lowest_2xx cs)"
proof (cases "is_2xx k")
  case False
  then have "fin_2xx k = []" by (simp add: fin_2xx_iff)
  with False show ?thesis by (simp add: lowest_2xx_def)
next
  case True
  then obtain q where q: "k = Fin q" "fin_2xx k = [q]" "q \<noteq> 0" using fin_2xx_Fin by blast
  show ?thesis
  proof (cases "concat (map fin_2xx cs) = []")
    case True
    with q \<open>is_2xx k\<close> show ?thesis by (simp add: lowest_2xx_def)
  next
    case False
    define M where "M = Min (set (concat (map fin_2xx cs)))"
    have fin: "finite (set (concat (map fin_2xx cs)))"
      and ne: "set (concat (map fin_2xx cs)) \<noteq> {}" using False by auto
    have "Min (insert q (set (concat (map fin_2xx cs)))) = min q M"
      unfolding M_def using fin ne by (rule Min_insert)
    then have L: "lowest_2xx (cs @ [k]) = Some (Fin (min q M))"
      using q by (simp add: lowest_2xx_def Un_commute)
    have C: "lowest_2xx cs = Some (Fin M)"
      using False by (simp add: lowest_2xx_def M_def)
    have nz: "M \<noteq> 0"
    proof -
      have "M \<in> set (concat (map fin_2xx cs))" unfolding M_def using fin ne by (rule Min_in)
      then obtain c where "M \<in> set (fin_2xx c)" by auto
      then show ?thesis by (rule fin_2xx_nonzero)
    qed
    show ?thesis unfolding L C using q(1) \<open>is_2xx k\<close> nz
      by (auto simp: min_def simp del: is_2xx.simps)
  qed
qed

lemma registered_step:
  assumes "registered seen st"
  shows "registered (seen @ [code c]) (register_candidate fmts f st c)"
proof -
  obtain mm cur where st: "st = (mm, cur)" by (cases st)
  show ?thesis using assms unfolding st registered_def register_candidate_def
    by (auto simp: lowest_2xx_snoc addResponse_def Let_def dom_update update_conv' simp del: is_2xx.simps split: option.splits)
qed

lemma registered_foldl:
  "registered seen st \<Longrightarrow> registered (seen @ map code cs) (foldl (register_candidate fmts f) st cs)"
proof (induction cs arbitrary: seen st)
  case Nil
  then show ?case by simp
next
  case (Cons c cs)
  from Cons.IH[OF registered_step[OF Cons.prems, of c fmts f]] show ?case by simp
qed


lemma lowest_2xx_Some:
  assumes "lowest_2xx cs = Some k"
  shows "k \<in> set cs" and "is_2xx k" and "truthy_num k"
    and "\<forall>c \<in> set cs. is_2xx c \<longrightarrow> \<not> js_gt k c"
proof -
  define S where "S = set (concat (map fin_2xx cs))"
  from assms have ne: "S \<noteq> {}" and k: "k = Fin (Min S)"
    by (auto simp: lowest_2xx_def S_def Let_def split: if_splits)
  have fin: "finite S" by (simp add: S_def)
  have "Min S \<in> S" using fin ne by (rule Min_in)
  then obtain c where c: "c \<in> set cs" "Min S \<in> set (fin_2xx c)" by (auto simp: S_def)
  from c(2) have ck: "c = Fin (Min S) \<and> is_2xx c \<and> Min S \<noteq> 0"
    by (cases c) (auto split: if_splits)
  show "k \<in> set cs" using c ck k by simp
  show "is_2xx k" using ck k by blast
  show "truthy_num k" using ck k by simp
  show "\<forall>c \<in> set cs. is_2xx c \<longrightarrow> \<not> js_gt k c"
  proof (intro ballI impI)
    fix d assume d: "d \<in> set cs" "is_2xx d"
    then obtain q where q: "d = Fin q" "fin_2xx d = [q]" using fin_2xx_Fin by blast
    with d have "q \<in> S" by (force simp: S_def)
    then have "Min S \<le> q" using fin by simp
    then show "\<not> js_gt k d" using k q by simp
  qed
qed

lemma lowest_2xx_None: "(lowest_2xx cs = None) = (\<forall>c \<in> set cs. \<not> is_2xx c)"
  by (auto simp: lowest_2xx_def Let_def fin_2xx_iff)

lemma lowest_2xx_set: "set cs = set ds \<Longrightarrow> lowest_2xx cs = lowest_2xx ds"
  by (simp add: lowest_2xx_def)

lemma registered_start: "registered [] (fst (new_RequestMocker u m w), None)"
  by (simp add: registered_def new_RequestMocker_def lowest_2xx_def)

lemma register_candidate_frame:
  "uri (fst (register_candidate fmts f st c)) = uri (fst st)
   \<and> httpMethod (fst (register_candidate fmts f st c)) = httpMethod (fst st)
   \<and> oid (fst (register_candidate fmts f st c)) = oid (fst st)"
  by (cases st) (simp add: register_candidate_def addResponse_def Let_def)

lemma foldl_register_frame:
  "uri (fst (foldl (register_candidate fmts f) st cs)) = uri (fst st)
   \<and> httpMethod (fst (foldl (register_candidate fmts f) st cs)) = httpMethod (fst st)
   \<and> oid (fst (foldl (register_candidate fmts f) st cs)) = oid (fst st)"
  by (induction cs arbitrary: st) (simp_all add: register_candidate_frame)

lemma set_defaultCode_frame:
  "uri (set_defaultCode st) = uri (fst st) \<and> httpMethod (set_defaultCode st) = httpMethod (fst st)
   \<and> oid (set_defaultCode st) = oid (fst st) \<and> responses (set_defaultCode st) = responses (fst st)
   \<and> examples (set_defaultCode st) = examples (fst st) \<and> mock (set_defaultCode st) = mock (fst st)
   \<and> mock_example (set_defaultCode st) = mock_example (fst st)"
  by (cases st) (simp add: set_defaultCode_def split: option.splits)

lemma set_defaultCode_registered:
  assumes "registered seen st"
  shows "defaultCode (set_defaultCode st) = lowest_2xx seen"
proof -
  obtain mm cur where st: "st = (mm, cur)" by (cases st)
  show ?thesis
  proof (cases "lowest_2xx seen")
    case None
    with assms st show ?thesis by (simp add: registered_def set_defaultCode_def)
  next
    case (Some k)
    then have "truthy_num k" by (rule lowest_2xx_Some)
    with assms st Some show ?thesis by (simp add: registered_def set_defaultCode_def)
  qed
qed

text \<open>What one entry of \<open>responses\<close> contributes, and what it writes to the console.\<close>

lemma response_candidate_world:
  "response_candidate parse entry w =
     (fst (response_candidate parse entry world0),
      w\<lparr>console := console w @ console (snd (response_candidate parse entry world0))\<rparr>)"
  by (cases entry)
     (auto simp: response_candidate_def parse_schema_def world0_def split: option.splits)

lemma getResponsesByCode_world:
  "getResponsesByCode parse rs w =
     (concat (map (\<lambda>entry. fst (response_candidate parse entry world0)) rs),
      w\<lparr>console := console w
             @ concat (map (\<lambda>entry. console (snd (response_candidate parse entry world0))) rs)\<rparr>)"
proof (induction rs arbitrary: w)
  case Nil
  then show ?case by simp
next
  case (Cons entry rest)
  show ?case
    by (simp add: Cons.IH response_candidate_world[of parse entry w])
qed

lemma mock_method_eligible:
  assumes "eligible m" and "m_responses m = Some rs"
  shows "mock_method parse u fmts f m w =
     ([set_defaultCode
         (foldl (register_candidate fmts f)
            (fst (new_RequestMocker u (m_method m) (snd (getResponsesByCode parse rs w))), None)
            (fst (getResponsesByCode parse rs w)))],
      snd (new_RequestMocker u (m_method m) (snd (getResponsesByCode parse rs w))))"
  using assms by (simp add: mock_method_def eligible_def split: prod.splits)

lemma mock_method_not_eligible: "\<not> eligible m \<Longrightarrow> mock_method parse u fmts f m w = ([], w)"
  by (auto simp: mock_method_def eligible_def split: option.splits)

lemma mock_method_bundle:
  assumes "eligible m" and "m_responses m = Some rs"
  shows "\<exists>b. fst (mock_method parse u fmts f m w) = [b]
           \<and> defaultCode b = lowest_2xx (candidate_codes rs)
           \<and> fst ` set (responses b) = set (candidate_codes rs)
           \<and> fst ` set (examples b) = set (candidate_codes rs)
           \<and> (lowest_2xx (candidate_codes rs) = None \<longrightarrow> mock b = None \<and> mock_example b = None)"
proof -
  define cands where "cands = fst (getResponsesByCode parse rs w)"
  define w1 where "w1 = snd (getResponsesByCode parse rs w)"
  define st where "st = foldl (register_candidate fmts f) (fst (new_RequestMocker u (m_method m) w1), None) cands"
  have codes: "map code cands = candidate_codes rs"
    by (simp add: cands_def candidate_codes_def getResponsesByCode_codes)
  have reg: "registered (candidate_codes rs) st"
    using registered_foldl[where cs = cands and fmts = fmts and f = f,
            OF registered_start[of u "m_method m" w1]]
    by (simp add: st_def codes)
  have b: "fst (mock_method parse u fmts f m w) = [set_defaultCode st]"
    by (simp add: mock_method_eligible[OF assms] st_def cands_def w1_def)
  obtain mm cur where mc: "st = (mm, cur)" by (cases st)
  from reg have r1: "fst ` set (responses mm) = set (candidate_codes rs)"
    and r2: "fst ` set (examples mm) = set (candidate_codes rs)"
    and r3: "lowest_2xx (candidate_codes rs) = None \<longrightarrow> mock mm = None \<and> mock_example mm = None"
    unfolding mc registered_def by auto
  have fr: "responses (set_defaultCode st) = responses mm"
    "examples (set_defaultCode st) = examples mm"
    "mock (set_defaultCode st) = mock mm"
    "mock_example (set_defaultCode st) = mock_example mm"
    using set_defaultCode_frame[of st] by (simp_all add: mc)
  show ?thesis
  proof (intro exI[of _ "set_defaultCode st"] conjI)
    show "fst (mock_method parse u fmts f m w) = [set_defaultCode st]" by (rule b)
    show "defaultCode (set_defaultCode st) = lowest_2xx (candidate_codes rs)"
      using reg by (rule set_defaultCode_registered)
    show "fst ` set (responses (set_defaultCode st)) = set (candidate_codes rs)"
      by (simp only: fr r1)
    show "fst ` set (examples (set_defaultCode st)) = set (candidate_codes rs)"
      by (simp only: fr r2)
    show "lowest_2xx (candidate_codes rs) = None \<longrightarrow>
            mock (set_defaultCode st) = None \<and> mock_example (set_defaultCode st) = None"
      using r3 by (simp only: fr)
  qed
qed

lemma has_matching_body_iff:
  "has_matching_body r = (\<exists>bs. r_body r = Some bs \<and> (\<exists>k \<in> fst ` set bs. media_type_match k))"
  by (auto simp: has_matching_body_def list_ex_iff split: option.splits)

lemma text_plain: "\<not> media_type_match ''text/plain''" by code_simp
lemma default_NaN: "js_Number ''default'' = NaN" by code_simp

text \<open>A key that is a decimal integer string is numeric for \<open>Number\<close>.\<close>

lemma digit_of_10:
  "is_digit 10 c \<Longrightarrow> 48 \<le> (of_char c :: int) \<and> (of_char c :: int) \<le> 57"
  by (auto simp: is_digit_def digit_of_def Let_def split: if_splits option.splits)

lemma digit_not_special:
  assumes "is_digit 10 c"
  shows "\<not> is_ws c" and "c \<noteq> CHR ''+''" and "c \<noteq> CHR ''-''" and "c \<noteq> CHR ''x''"
    and "c \<noteq> CHR ''X''" and "c \<noteq> CHR ''o''" and "c \<noteq> CHR ''O''" and "c \<noteq> CHR ''b''"
    and "c \<noteq> CHR ''B''" and "c \<noteq> CHR ''I''"
  using digit_of_10[OF assms] by (auto simp: is_ws_def)

lemma round_binary64_not_NaN: "round_binary64 q \<noteq> NaN"
  by (simp add: round_binary64_def Let_def)

lemma trim_digits:
  assumes "s \<noteq> []" and "list_all (is_digit 10) s"
  shows "trim s = s"
proof -
  from assms obtain c r where s: "s = c # r" by (cases s) auto
  with assms(2) have "\<not> is_ws c" by (simp add: digit_not_special)
  then have 1: "dropWhile is_ws s = s" by (simp add: s)
  from assms have "is_digit 10 (last s)" by (simp add: list_all_iff)
  then have "\<not> is_ws (last s)" by (rule digit_not_special)
  then have "\<not> is_ws (hd (rev s))" using assms(1) by (simp add: hd_rev)
  then have "dropWhile is_ws (rev s) = rev s" using assms(1) by (cases "rev s") auto
  with 1 show ?thesis by (simp add: trim_def)
qed

lemma unsigned_decimal_digits:
  assumes "s \<noteq> []" and "list_all (is_digit 10) s"
  shows "unsigned_decimal s \<noteq> NaN"
proof -
  from assms obtain c r where s: "s = c # r" by (cases s) auto
  with assms(2) have "c \<noteq> CHR ''I''" by (simp add: digit_not_special)
  then have ni: "s \<noteq> ''Infinity''" using s by auto
  have tw: "takeWhile (is_digit 10) s = s" "dropWhile (is_digit 10) s = []"
    using assms(2) by (simp_all add: list_all_iff)
  have "\<exists>m. radix_value 10 s = Some m" using assms by (simp add: radix_value_def)
  then obtain m where m: "radix_value 10 s = Some m" by blast
  show ?thesis unfolding unsigned_decimal_def Let_def tw using ni m assms(1)
    by (simp add: exponent_part_def round_binary64_not_NaN)
qed

lemma integer_string_is_numeric: "integer_string s \<Longrightarrow> js_Number s \<noteq> NaN"
proof -
  assume a: "integer_string s"
  then have ne: "s \<noteq> []" and ds: "list_all (is_digit 10) s" by (simp_all add: integer_string_def)
  have t: "trim s = s" using ne ds by (rule trim_digits)
  from ne obtain c r where s: "s = c # r" by (cases s) auto
  with ds have c: "c \<noteq> CHR ''+''" "c \<noteq> CHR ''-''" by (simp_all add: digit_not_special)
  have sd: "signed_decimal s = unsigned_decimal s" using s c by (simp add: signed_decimal_def)
  have "js_Number s = signed_decimal s"
  proof (cases r)
    case Nil
    then show ?thesis using s t by (simp add: js_Number_def)
  next
    case (Cons d r')
    with s ds have "is_digit 10 d" by simp
    then have "d \<noteq> CHR ''x''" "d \<noteq> CHR ''X''" "d \<noteq> CHR ''o''" "d \<noteq> CHR ''O''"
      "d \<noteq> CHR ''b''" "d \<noteq> CHR ''B''" by (simp_all add: digit_not_special)
    then show ?thesis using s t Cons by (simp add: js_Number_def)
  qed
  then show ?thesis using sd unsigned_decimal_digits[OF ne ds] by simp
qed

text \<open>
  C4, as amended: the candidates of a \<open>responses\<close> mapping are, in order, the codes
  \<open>Number(key)\<close> of the entries whose response is not null, whose key \<open>Number\<close> does not
  turn into NaN, and which have a body under a media type that the pattern of line 165
  matches. \<open>application/json\<close> is such a media type and \<open>text/plain\<close> is not; the key
  \<open>default\<close> is NaN, and no decimal integer string is.
\<close>

theorem candidates_of_responses:
  "map code (fst (getResponsesByCode parse rs w)) = candidate_codes rs
   \<and> yields_candidate (key, resp) =
       (\<exists>r. resp = Some r \<and> js_Number key \<noteq> NaN
            \<and> (\<exists>bs. r_body r = Some bs \<and> (\<exists>k \<in> fst ` set bs. media_type_match k)))
   \<and> media_type_match ''application/json''
   \<and> \<not> media_type_match ''text/plain''
   \<and> js_Number ''default'' = NaN
   \<and> (integer_string key \<longrightarrow> js_Number key \<noteq> NaN)"
proof (intro conjI)
  show "integer_string key \<longrightarrow> js_Number key \<noteq> NaN"
    using integer_string_is_numeric by blast
  show "map code (fst (getResponsesByCode parse rs w)) = candidate_codes rs"
    by (simp add: candidate_codes_def getResponsesByCode_codes)
  show "yields_candidate (key, resp) =
       (\<exists>r. resp = Some r \<and> js_Number key \<noteq> NaN
            \<and> (\<exists>bs. r_body r = Some bs \<and> (\<exists>k \<in> fst ` set bs. media_type_match k)))"
    by (cases resp) (auto simp: yields_candidate_def has_matching_body_iff)
qed (rule mtm_json text_plain default_NaN)+

lemma mixed_codes: "candidate_codes mixed_responses = [Fin 200]" by code_simp

theorem candidates_of_responses_witness:
  "map code (fst (getResponsesByCode (JSON_parse env0) mixed_responses world0)) = [Fin 200]"
  using candidates_of_responses[of "JSON_parse env0" mixed_responses world0]
  by (simp add: mixed_codes)

text \<open>
  C4 as stated fails: the key \<open>1.5\<close> is not an integer string, and its entry yields a
  candidate, with the code 1.5.
\<close>

theorem non_integer_key_yields_candidate:
  "\<not> integer_string ''1.5''
   \<and> map code (fst (getResponsesByCode (JSON_parse env0)
                     [(''1.5'', Some \<lparr>r_body = Some json_body\<rparr>)] world0)) = [Fin (3 / 2)]"
  by code_simp

subsection \<open>Which methods contribute a bundle\<close>

lemma verb_match_nonempty: "verb_match s \<Longrightarrow> s \<noteq> []"
  by (cases s) auto

lemma patch: "\<not> verb_match ''PATCH''" by code_simp

lemma each_method_Cons:
  "each_method parse u fmts f (m # ms) w =
     (fst (mock_method parse u fmts f m w)
        @ fst (each_method parse u fmts f ms (snd (mock_method parse u fmts f m w))),
      snd (each_method parse u fmts f ms (snd (mock_method parse u fmts f m w))))"
  by (simp split: prod.splits)

lemma mock_method_keys:
  "map (\<lambda>b. (uri b, httpMethod b)) (fst (mock_method parse u fmts f m w))
     = (if eligible m then [(u, m_method m)] else [])"
proof (cases "eligible m")
  case False
  then show ?thesis by (simp add: mock_method_not_eligible)
next
  case True
  then obtain rs where rs: "m_responses m = Some rs" by (auto simp: eligible_def)
  show ?thesis using True
    by (simp add: mock_method_eligible[OF True rs] set_defaultCode_frame
          foldl_register_frame new_RequestMocker_def)
qed

lemma each_method_keys:
  "map (\<lambda>b. (uri b, httpMethod b)) (fst (each_method parse u fmts f ms w))
     = map (\<lambda>m. (u, m_method m)) (filter eligible ms)"
proof (induction ms arbitrary: w)
  case Nil
  then show ?case by simp
next
  case (Cons m ms)
  show ?case
    unfolding each_method_Cons by (simp add: mock_method_keys Cons.IH)
qed

text \<open>
  C6, as amended: a method node contributes exactly one bundle, with the node's URI and its
  verb, if and only if the pattern \<open>get|post|put|delete\<close> matches its verb without regard
  to case and its \<open>responses\<close> is present (empty or not); otherwise it contributes nothing
  and nothing else happens. \<open>PATCH\<close> is not matched.
\<close>

theorem method_contributes_iff_eligible:
  "(\<exists>b. fst (mock_method parse u fmts f m w) = [b] \<and> uri b = u \<and> httpMethod b = m_method m)
      = eligible m
   \<and> (\<not> eligible m \<longrightarrow> mock_method parse u fmts f m w = ([], w))
   \<and> eligible m = (verb_match (m_method m) \<and> m_responses m \<noteq> None)
   \<and> \<not> verb_match ''PATCH''
   \<and> map (\<lambda>b. (uri b, httpMethod b)) (fst (getRamlRequestsToMockMethods parse d u fmts f w))
       = map (\<lambda>m. (u, m_method m)) (filter eligible (case methods d of None \<Rightarrow> [] | Some ms \<Rightarrow> ms))"
proof (intro conjI)
  show "(\<exists>b. fst (mock_method parse u fmts f m w) = [b] \<and> uri b = u \<and> httpMethod b = m_method m)
      = eligible m"
  proof (cases "eligible m")
    case False
    then show ?thesis by (simp add: mock_method_not_eligible)
  next
    case True
    then obtain rs where rs: "m_responses m = Some rs" by (auto simp: eligible_def)
    show ?thesis using True
      by (simp add: mock_method_eligible[OF True rs] set_defaultCode_frame
            foldl_register_frame new_RequestMocker_def)
  qed
  show "\<not> eligible m \<longrightarrow> mock_method parse u fmts f m w = ([], w)"
    by (simp add: mock_method_not_eligible)
  show "eligible m = (verb_match (m_method m) \<and> m_responses m \<noteq> None)"
    using verb_match_nonempty by (auto simp: eligible_def)
  show "\<not> verb_match ''PATCH''" by (rule patch)
  show "map (\<lambda>b. (uri b, httpMethod b)) (fst (getRamlRequestsToMockMethods parse d u fmts f w))
       = map (\<lambda>m. (u, m_method m)) (filter eligible (case methods d of None \<Rightarrow> [] | Some ms \<Rightarrow> ms))"
    by (simp add: getRamlRequestsToMockMethods_def each_method_keys)
qed

theorem method_contributes_iff_eligible_witness:
  "mock_method (JSON_parse env0) ''/ping'' [] ''a.raml''
     \<lparr>m_method = ''PATCH'', m_responses = Some responses3\<rparr> world0 = ([], world0)"
proof -
  have "\<not> eligible \<lparr>m_method = ''PATCH'', m_responses = Some responses3\<rparr>" by code_simp
  with method_contributes_iff_eligible[of "JSON_parse env0" "''/ping''" "[]" "''a.raml''"
      "\<lparr>m_method = ''PATCH'', m_responses = Some responses3\<rparr>" world0]
  show ?thesis by blast
qed

text \<open>
  C6 as stated fails: a \<open>GET\<close> whose \<open>responses\<close> is the empty mapping contributes a
  bundle, with an empty response map.
\<close>

theorem empty_responses_yield_bundle:
  "map (\<lambda>b. (uri b, httpMethod b, responses b))
     (fst (mock_method (JSON_parse env0) ''/ping'' [] ''a.raml''
             \<lparr>m_method = ''GET'', m_responses = Some []\<rparr> world0)) = [(''/ping'', ''GET'', [])]"
  by code_simp

subsection \<open>A schema that is not JSON\<close>

text \<open>
  C9: when the schema text of the selected body is not valid JSON, the extractor still
  returns, with a candidate for the entry whose schema is \<open>null\<close> and whose example is the
  body's, and with the diagnostic on the console; the candidate's mock function returns
  \<open>null\<close> and its example function returns the example.
\<close>

theorem unparsable_schema_keeps_candidate:
  assumes "(key, Some r) \<in> set rs" and "select_body r = Some b" and "b_schema b = Some s"
    and "s \<noteq> []" and "parse s = None" and "js_Number key \<noteq> NaN"
  shows "\<lparr>code = js_Number key, schema = Null, example = b_example b\<rparr>
           \<in> set (fst (getResponsesByCode parse rs w))
     \<and> Unable_to_parse s \<in> set (console (snd (getResponsesByCode parse rs w)))
     \<and> call_closure gen (Mock_fn \<lparr>code = js_Number key, schema = Null, example = b_example b\<rparr> fmts f) w'
         = (Null, w')
     \<and> call_closure gen (Example_fn \<lparr>code = js_Number key, schema = Null, example = b_example b\<rparr>) w'
         = (b_example b, w')"
proof -
  have rc: "response_candidate parse (key, Some r) world0 =
     ([\<lparr>code = js_Number key, schema = Null, example = b_example b\<rparr>],
      world0\<lparr>console := console world0 @ [Unable_to_parse s, Schema_exception s]\<rparr>)"
    using assms(2-6) by (simp add: response_candidate_def parse_schema_def)
  have "\<lparr>code = js_Number key, schema = Null, example = b_example b\<rparr>
           \<in> set (fst (getResponsesByCode parse rs w))"
    using assms(1) rc by (force simp: getResponsesByCode_world)
  moreover have "Unable_to_parse s \<in> set (console (snd (getResponsesByCode parse rs w)))"
    using assms(1) rc by (force simp: getResponsesByCode_world world0_def)
  ultimately show ?thesis by simp
qed

theorem unparsable_schema_keeps_candidate_witness:
  "\<lparr>code = Fin 200, schema = Null, example = Str ''pong''\<rparr>
      \<in> set (fst (getResponsesByCode (JSON_parse env0) broken_schema_responses world0))
   \<and> Unable_to_parse ''{oops''
      \<in> set (console (snd (getResponsesByCode (JSON_parse env0) broken_schema_responses world0)))
   \<and> call_closure (schemaMocker env0)
        (Mock_fn \<lparr>code = Fin 200, schema = Null, example = Str ''pong''\<rparr> [] ''a.raml'') world0
       = (Null, world0)
   \<and> call_closure (schemaMocker env0)
        (Example_fn \<lparr>code = Fin 200, schema = Null, example = Str ''pong''\<rparr>) world0
       = (Str ''pong'', world0)"
proof -
  let ?r = "\<lparr>r_body = Some [(''application/json'', \<lparr>b_schema = Some ''{oops'', b_example = Str ''pong''\<rparr>)]\<rparr>"
  let ?b = "\<lparr>b_schema = Some ''{oops'', b_example = Str ''pong''\<rparr>"
  have 1: "(''200'', Some ?r) \<in> set broken_schema_responses" by (simp add: broken_schema_responses_def)
  have 2: "select_body ?r = Some ?b" by code_simp
  have 3: "b_schema ?b = Some ''{oops''" by simp
  have 4: "''{oops'' \<noteq> []" by simp
  have 5: "JSON_parse env0 ''{oops'' = None" by (simp add: env0_def)
  have 6: "js_Number ''200'' \<noteq> NaN" by code_simp
  have 7: "js_Number ''200'' = Fin 200" by code_simp
  from unparsable_schema_keeps_candidate[where parse = "JSON_parse env0" and s = "''{oops''"
      and key = "''200''" and r = ?r and b = ?b and rs = broken_schema_responses and w = world0
      and gen = "schemaMocker env0" and fmts = "[]" and f = "''a.raml''" and w' = world0,
      OF 1 2 3 4 5 6]
  show ?thesis by (simp add: 7)
qed

subsection \<open>The traversal of a tree and of the files\<close>

lemma advance_0 [simp]: "advance w [] 0 = w"
  by (simp add: advance_def)

lemma advance_advance [simp]: "advance (advance w ds n) ds' n' = advance w (ds @ ds') (n + n')"
  by (simp add: advance_def)

lemma allocated_advance [simp]: "allocated (advance w ds n) = allocated w + n"
  by (simp add: advance_def)

lemma lodash_union_foldl:
  "distinct (map oid (acc @ xs)) \<Longrightarrow>
   foldl (\<lambda>acc x. if oid x \<in> oid ` set acc then acc else acc @ [x]) acc xs = acc @ xs"
proof (induction xs arbitrary: acc)
  case Nil
  then show ?case by simp
next
  case (Cons x xs)
  from Cons.prems have "oid x \<notin> oid ` set acc" by auto
  moreover from Cons.prems have "distinct (map oid ((acc @ [x]) @ xs))" by simp
  ultimately show ?case using Cons.IH[of "acc @ [x]"] by simp
qed

lemma lodash_union_append:
  "distinct (map oid (a @ b)) \<Longrightarrow> lodash_union a b = a @ b"
  using lodash_union_foldl[of "[]" "a @ b"] by (simp add: lodash_union_def)

lemma lodash_union_upt:
  "map oid a = [x ..< y] \<Longrightarrow> map oid b = [y ..< z] \<Longrightarrow> x \<le> y \<Longrightarrow> y \<le> z \<Longrightarrow> lodash_union a b = a @ b"
proof -
  assume a: "map oid a = [x ..< y]" and b: "map oid b = [y ..< z]" and "x \<le> y" "y \<le> z"
  then have "map oid (a @ b) = [x ..< z]"
    using upt_add_eq_append[of x y "z - y"] by simp
  then have "distinct (map oid (a @ b))" by (simp only: distinct_upt)
  then show ?thesis by (rule lodash_union_append)
qed

lemma diags_of_entry:
  "list_all is_schema_diag (console (snd (response_candidate parse entry world0)))"
  by (cases entry)
     (auto simp: response_candidate_def parse_schema_def world0_def split: option.splits)

lemma getResponsesByCode_advance:
  "\<exists>ds. snd (getResponsesByCode parse rs w) = advance w ds 0 \<and> list_all is_schema_diag ds"
proof -
  let ?ds = "concat (map (\<lambda>entry. console (snd (response_candidate parse entry world0))) rs)"
  have "list_all is_schema_diag ?ds"
    using diags_of_entry by (auto simp: list_all_iff)
  moreover have "snd (getResponsesByCode parse rs w) = advance w ?ds 0"
    by (simp add: getResponsesByCode_world advance_def)
  ultimately show ?thesis by blast
qed

lemma collected_mock_method:
  "collected (mock_method parse u fmts f m w) w (if eligible m then [method_summary u m] else [])"
proof (cases "eligible m")
  case False
  then show ?thesis
    by (simp add: mock_method_not_eligible collected_def) (rule exI[of _ "[]"], simp)
next
  case True
  then obtain rs where rs: "m_responses m = Some rs" by (auto simp: eligible_def)
  obtain ds where ds: "snd (getResponsesByCode parse rs w) = advance w ds 0" "list_all is_schema_diag ds"
    using getResponsesByCode_advance by blast
  from mock_method_bundle[OF True rs, of parse u fmts f w]
  obtain b where b: "fst (mock_method parse u fmts f m w) = [b]"
    "fst ` set (responses b) = set (candidate_codes rs)"
    "defaultCode b = lowest_2xx (candidate_codes rs)" by blast
  have k: "map (\<lambda>b. (uri b, httpMethod b)) [b] = [(u, m_method m)]"
    using mock_method_keys[of parse u fmts f m w] True b(1) by simp
  have "b = set_defaultCode
         (foldl (register_candidate fmts f)
            (fst (new_RequestMocker u (m_method m) (snd (getResponsesByCode parse rs w))), None)
            (fst (getResponsesByCode parse rs w)))"
    using b(1) unfolding mock_method_eligible[OF True rs] by simp
  then have o: "oid b = allocated w"
    by (simp add: set_defaultCode_frame foldl_register_frame new_RequestMocker_def ds(1))
  have w: "snd (mock_method parse u fmts f m w) = advance w ds 1"
    by (simp add: mock_method_eligible[OF True rs] new_RequestMocker_def ds(1)) (simp add: advance_def)
  have "mock_method parse u fmts f m w = ([b], advance w ds (length [b]))"
    using b(1) w by (simp add: prod_eq_iff)
  moreover have "map bundle_summary [b] = [method_summary u m]"
    using k b(2,3) rs by (simp add: bundle_summary_def method_summary_def Let_def)
  ultimately show ?thesis using True ds(2) o unfolding collected_def by fastforce
qed


lemma collectedE:
  assumes "collected r w e"
  obtains bs ds where "r = (bs, advance w ds (length bs))" "list_all is_schema_diag ds"
    "map oid bs = [allocated w ..< allocated w + length bs]" "map bundle_summary bs = e"
  using assms unfolding collected_def by blast

lemma collected_nothing: "collected ([], w) w []"
  unfolding collected_def by (rule exI[of _ "[]"], rule exI[of _ "[]"]) simp

lemma collected_seq:
  assumes "collected r1 w e1" and "collected r2 (snd r1) e2"
  shows "collected (fst r1 @ fst r2, snd r2) w (e1 @ e2)"
    and "lodash_union (fst r1) (fst r2) = fst r1 @ fst r2"
proof -
  from assms(1) obtain bs1 ds1 where 1: "r1 = (bs1, advance w ds1 (length bs1))"
    "list_all is_schema_diag ds1" "map oid bs1 = [allocated w ..< allocated w + length bs1]"
    "map bundle_summary bs1 = e1" by (rule collectedE)
  from assms(2) obtain bs2 ds2 where 2: "r2 = (bs2, advance (snd r1) ds2 (length bs2))"
    "list_all is_schema_diag ds2"
    "map oid bs2 = [allocated (snd r1) ..< allocated (snd r1) + length bs2]"
    "map bundle_summary bs2 = e2" by (rule collectedE)
  have o2: "map oid bs2 = [allocated w + length bs1 ..< allocated w + length bs1 + length bs2]"
    using 2(3) 1(1) by simp
  have o: "map oid (bs1 @ bs2) = [allocated w ..< allocated w + length (bs1 @ bs2)]"
    using 1(3) o2 upt_add_eq_append[of "allocated w" "allocated w + length bs1" "length bs2"]
    by (simp add: add.assoc)
  have "(fst r1 @ fst r2, snd r2) = (bs1 @ bs2, advance w (ds1 @ ds2) (length (bs1 @ bs2)))"
    using 1(1) 2(1) by simp
  moreover have "list_all is_schema_diag (ds1 @ ds2)" using 1(2) 2(2) by simp
  moreover have "map bundle_summary (bs1 @ bs2) = e1 @ e2" using 1(4) 2(4) by simp
  ultimately show "collected (fst r1 @ fst r2, snd r2) w (e1 @ e2)"
    using o unfolding collected_def by blast
  have "distinct (map oid (bs1 @ bs2))" by (simp only: o distinct_upt)
  then show "lodash_union (fst r1) (fst r2) = fst r1 @ fst r2"
    using 1(1) 2(1) by (simp add: lodash_union_append)
qed

lemma collected_each_method:
  "collected (each_method parse u fmts f ms w) w (map (method_summary u) (filter eligible ms))"
proof (induction ms arbitrary: w)
  case Nil
  then show ?case by (simp add: collected_nothing)
next
  case (Cons m ms)
  have e: "map (method_summary u) (filter eligible (m # ms))
             = (if eligible m then [method_summary u m] else [])
               @ map (method_summary u) (filter eligible ms)"
    by simp
  show ?case unfolding each_method_Cons e
    by (rule collected_seq(1)[OF collected_mock_method Cons.IH])
qed

lemma collected_methods:
  "collected
     (case ms of
        None \<Rightarrow> ([], w)
      | Some x \<Rightarrow>
          (case getRamlRequestsToMockMethods parse (Node rel ps ms rs) u fmts f w of
             (reqs, x) \<Rightarrow> (lodash_union [] reqs, x)))
     w (map (method_summary u) (filter eligible (case ms of None \<Rightarrow> [] | Some l \<Rightarrow> l)))"
proof (cases ms)
  case None
  then show ?thesis by (simp add: collected_nothing)
next
  case (Some l)
  let ?r = "each_method parse u fmts f l w"
  have c: "collected ?r w (map (method_summary u) (filter eligible l))"
    by (rule collected_each_method)
  have c': "collected ?r (snd ([]::RequestMocker list, w)) (map (method_summary u) (filter eligible l))"
    using c by simp
  have "lodash_union (fst ([]::RequestMocker list, w)) (fst ?r) = fst ([]::RequestMocker list, w) @ fst ?r"
    by (rule collected_seq(2)[OF collected_nothing c'])
  then have "lodash_union [] (fst ?r) = fst ?r" by simp
  then show ?thesis using Some c
    by (simp add: getRamlRequestsToMockMethods_def case_prod_beta)
qed

lemma collected_tree:
  "collected (getRamlRequestsToMock parse d u fmts f w) w (node_bundles d u)"
  and "\<forall>a. a \<le> allocated w \<and> map oid acc = [a ..< allocated w] \<longrightarrow>
         (\<exists>r. collected r w (nodes_bundles ds u)
            \<and> getRamlRequestsToMockResources parse ds u fmts f acc w = (acc @ fst r, snd r))"
proof (induction parse d u fmts f w and parse ds u fmts f acc w
    rule: getRamlRequestsToMock_getRamlRequestsToMockResources.induct)
  case (1 parse rel ps ms rs u fmts ramlfile w)
  define u' where "u' = node_uri (Node rel ps ms rs) u"
  define r1 where "r1 = (case ms of
        None \<Rightarrow> ([], w)
      | Some x \<Rightarrow>
          (case getRamlRequestsToMockMethods parse (Node rel ps ms rs) u' fmts ramlfile w of
             (reqs, x) \<Rightarrow> (lodash_union [] reqs, x)))"
  have c1: "collected r1 w (map (method_summary u') (filter eligible (case ms of None \<Rightarrow> [] | Some l \<Rightarrow> l)))"
    unfolding r1_def by (rule collected_methods)
  have g: "getRamlRequestsToMock parse (Node rel ps ms rs) u fmts ramlfile w =
      (case rs of
         None \<Rightarrow> r1
       | Some l \<Rightarrow>
           (lodash_union (fst r1)
              (fst (getRamlRequestsToMockResources parse l u' fmts ramlfile [] (snd r1))),
            snd (getRamlRequestsToMockResources parse l u' fmts ramlfile [] (snd r1))))"
    unfolding r1_def u'_def by (simp add: Let_def case_prod_beta split: option.splits)
  have n: "node_bundles (Node rel ps ms rs) u =
      map (method_summary u') (filter eligible (case ms of None \<Rightarrow> [] | Some l \<Rightarrow> l))
        @ (case rs of None \<Rightarrow> [] | Some l \<Rightarrow> nodes_bundles l u')"
    unfolding u'_def by (simp add: Let_def)
  show ?case
  proof (cases rs)
    case None
    show ?thesis unfolding g n using None c1 by simp
  next
    case (Some l)
    have "\<forall>a. a \<le> allocated (snd r1) \<and> map oid ([]::RequestMocker list) = [a ..< allocated (snd r1)] \<longrightarrow>
         (\<exists>r. collected r (snd r1) (nodes_bundles l u')
            \<and> getRamlRequestsToMockResources parse l u' fmts ramlfile [] (snd r1) = ([] @ fst r, snd r))"
    proof (rule "1.IH"[of "Node rel ps ms rs" u' "fst r1" "snd r1" l])
      show "(fst r1, snd r1) = (case ms of
            None \<Rightarrow> ([], w)
          | Some x \<Rightarrow>
              (case getRamlRequestsToMockMethods parse (Node rel ps ms rs) u' fmts ramlfile w of
                 (reqs, x) \<Rightarrow> (lodash_union [] reqs, x)))"
        by (simp add: r1_def)
    qed (simp_all add: u'_def Some)
    then obtain r2 where r2: "collected r2 (snd r1) (nodes_bundles l u')"
      "getRamlRequestsToMockResources parse l u' fmts ramlfile [] (snd r1) = r2"
      by force
    show ?thesis unfolding g n
      using Some r2(2) collected_seq(2)[OF c1 r2(1)] collected_seq(1)[OF c1 r2(1)] by simp
  qed
next
  case (2 parse u fmts ramlfile requestsToMock w)
  show ?case
  proof (intro allI impI)
    fix a
    show "\<exists>r. collected r w (nodes_bundles [] u)
            \<and> getRamlRequestsToMockResources parse [] u fmts ramlfile requestsToMock w
                = (requestsToMock @ fst r, snd r)"
      by (rule exI[of _ "([], w)"]) (simp add: collected_nothing)
  qed
next
  case (3 parse d ds u fmts ramlfile requestsToMock w)
  define r where "r = getRamlRequestsToMock parse d u fmts ramlfile w"
  have c: "collected r w (node_bundles d u)" unfolding r_def by (rule "3.IH"(1))
  then obtain bs es where bs: "r = (bs, advance w es (length bs))"
    "map oid bs = [allocated w ..< allocated w + length bs]" by (rule collectedE)
  show ?case
  proof (intro allI impI)
    fix a assume a: "a \<le> allocated w \<and> map oid requestsToMock = [a ..< allocated w]"
    have u: "lodash_union requestsToMock bs = requestsToMock @ bs"
      using a bs(2) by (intro lodash_union_upt[of _ a "allocated w" _ "allocated w + length bs"]) simp_all
    have "map oid (requestsToMock @ bs) = [a ..< allocated (snd r)]"
      using a bs upt_add_eq_append[of a "allocated w" "length bs"] by simp
    moreover have "a \<le> allocated (snd r)" using a bs(1) by simp
    moreover have "\<forall>a. a \<le> allocated (snd r) \<and> map oid (lodash_union requestsToMock (fst r)) = [a ..< allocated (snd r)] \<longrightarrow>
         (\<exists>r'. collected r' (snd r) (nodes_bundles ds u)
            \<and> getRamlRequestsToMockResources parse ds u fmts ramlfile (lodash_union requestsToMock (fst r)) (snd r)
                = (lodash_union requestsToMock (fst r) @ fst r', snd r'))"
      by (rule "3.IH"(2)) (simp add: r_def)
    ultimately obtain r2 where r2: "collected r2 (snd r) (nodes_bundles ds u)"
      "getRamlRequestsToMockResources parse ds u fmts ramlfile (requestsToMock @ bs) (snd r)
         = ((requestsToMock @ bs) @ fst r2, snd r2)"
      using u bs(1) by force
    have "getRamlRequestsToMockResources parse (d # ds) u fmts ramlfile requestsToMock w
            = (requestsToMock @ fst (fst r @ fst r2, snd r2), snd (fst r @ fst r2, snd r2))"
      using r2(2) u bs(1) by (simp add: r_def[symmetric])
    moreover have "collected (fst r @ fst r2, snd r2) w (nodes_bundles (d # ds) u)"
      using collected_seq(1)[OF c r2(1)] by simp
    ultimately show "\<exists>r. collected r w (nodes_bundles (d # ds) u)
            \<and> getRamlRequestsToMockResources parse (d # ds) u fmts ramlfile requestsToMock w
                = (requestsToMock @ fst r, snd r)"
      by blast
  qed
qed


lemma tree_result:
  obtains bs ds where
    "getRamlRequestsToMock parse d u fmts f w = (bs, advance w ds (length bs))"
    "list_all is_schema_diag ds"
    "map oid bs = [allocated w ..< allocated w + length bs]"
    "map bundle_summary bs = node_bundles d u"
  using collected_tree(1)[of parse d u fmts f w] by (rule collectedE)

lemma each_file_Inl:
  assumes "loadApi e file = Inl err"
  shows "each_file e opts fmts cb n (file # rest) (reqs, k, called) w =
     (if called then each_file e opts fmts cb n rest (reqs, k, called) w
      else each_file e opts fmts cb n rest (reqs, k, True)
             (console_log (''Error parsing: '' @ err) w))"
  using assms by simp

lemma each_file_Inr:
  assumes "loadApi e file = Inr data"
    and "getRamlRequestsToMock (JSON_parse e) (root data) (base_uri opts data) fmts file w = (bs, w1)"
  shows "each_file e opts fmts cb n (file # rest) (reqs, k, called) w =
     (if called then each_file e opts fmts cb n rest (lodash_union reqs bs, k, called) w1
      else if n \<le> Suc k
      then each_file e opts fmts cb n rest (lodash_union reqs bs, Suc k, True)
             (case call_callback cb (lodash_union reqs bs) w1 of
                (None, w2) \<Rightarrow> w2
              | (Some ex, w2) \<Rightarrow> w2\<lparr>uncaught := uncaught w2 @ [ex]\<rparr>)
      else each_file e opts fmts cb n rest (lodash_union reqs bs, Suc k, False) w1)"
  using assms by (simp add: Let_def)

lemma generator_calls_each_file:
  "generator_calls (each_file e opts fmts cb n fs st w) = generator_calls w"
proof (induction fs arbitrary: st w)
  case Nil
  then show ?case by simp
next
  case (Cons fl rest)
  obtain reqs k called where st: "st = (reqs, k, called)" by (cases st)
  show ?case
  proof (cases "loadApi e fl")
    case (Inl err)
    show ?thesis unfolding st each_file_Inl[OF Inl]
      by (simp add: Cons.IH console_log_def)
  next
    case (Inr data)
    obtain bs ds where t:
      "getRamlRequestsToMock (JSON_parse e) (root data) (base_uri opts data) fmts fl w
         = (bs, advance w ds (length bs))"
      by (rule tree_result)
    show ?thesis unfolding st each_file_Inr[OF Inr t] using Cons.IH
      by (cases cb) (simp_all add: call_callback_def advance_def)
  qed
qed

lemma generator_calls_generateFromFiles:
  "generator_calls (snd (generateFromFiles e fs opts cb w)) = generator_calls w"
  by (cases cb) (simp_all add: generateFromFiles_def Let_def call_callback_def generator_calls_each_file)

lemma generator_calls_generateFromPath:
  "generator_calls (generateFromPath e p opts cb w) = generator_calls w"
proof (cases "readdir e p")
  case (Inl err)
  then show ?thesis by (simp add: generateFromPath_def)
next
  case (Inr listing)
  let ?r = "generateFromFiles e (map (path_join e p) (filter ends_with_raml listing)) opts cb w"
  have "generator_calls (snd ?r) = generator_calls w" by (rule generator_calls_generateFromFiles)
  then show ?thesis using Inr
    by (cases ?r; cases "fst ?r") (simp_all add: generateFromPath_def)
qed

lemma generator_calls_generate:
  "generator_calls (generate e options cb w) = generator_calls w"
proof (cases options)
  case None
  then show ?thesis by (simp add: generate_def showUsage_def console_error_def)
next
  case (Some opts)
  define w1 where "w1 = (if cb \<noteq> Function
                     then showUsage (console_error
                            (''[RAML-MOCKER] You must define a callback function:'' @ [CHR 0x0A]) w)
                     else w)"
  have w1: "generator_calls w1 = generator_calls w"
    by (simp add: w1_def showUsage_def console_error_def)
  have g: "generate e options cb w =
     (case path opts of
        Some (c # cs) \<Rightarrow> generateFromPath e (c # cs) opts cb w1
      | _ \<Rightarrow>
          (case files opts of
             Some (Files_array fs) \<Rightarrow>
               (case generateFromFiles e fs opts cb w1 of
                  (None, w2) \<Rightarrow> w2
                | (Some ex, w2) \<Rightarrow>
                    showUsage (console_error ex (console_error
                      (''[RAML-MOCKER] A runtime error has ocurred:'' @ [CHR 0x0A]) w2)))
           | _ \<Rightarrow> w1))"
    unfolding w1_def using Some by (simp add: generate_def Let_def)
  show ?thesis
  proof (cases "\<exists>c cs. path opts = Some (c # cs)")
    case True
    then show ?thesis unfolding g
      by (auto simp: generator_calls_generateFromPath w1)
  next
    case False
    have p: "path opts = None \<or> path opts = Some []"
    proof (cases "path opts")
      case None
      then show ?thesis by simp
    next
      case (Some a)
      with False show ?thesis by (cases a) auto
    qed
    show ?thesis
    proof (cases "\<exists>fs. files opts = Some (Files_array fs)")
      case True
      then obtain fs where fs: "files opts = Some (Files_array fs)" by blast
      let ?r = "generateFromFiles e fs opts cb w1"
      have "generator_calls (snd ?r) = generator_calls w1" by (rule generator_calls_generateFromFiles)
      then show ?thesis unfolding g using p fs w1
        by (cases ?r; cases "fst ?r") (auto simp: showUsage_def console_error_def)
    next
      case False
      then show ?thesis unfolding g using p w1
        by (auto split: option.splits files_option.splits)
    qed
  qed
qed


lemma each_file_called:
  "\<exists>ds m. list_all is_schema_diag ds
      \<and> each_file e opts fmts cb n fs (reqs, k, True) w = advance w ds m"
proof (induction fs arbitrary: reqs k w)
  case Nil
  show ?case by (rule exI[of _ "[]"], rule exI[of _ 0]) simp
next
  case (Cons fl rest)
  show ?case
  proof (cases "loadApi e fl")
    case (Inl err)
    show ?thesis unfolding each_file_Inl[OF Inl] using Cons.IH by simp
  next
    case (Inr data)
    obtain bs ds where t:
      "getRamlRequestsToMock (JSON_parse e) (root data) (base_uri opts data) fmts fl w
         = (bs, advance w ds (length bs))" "list_all is_schema_diag ds"
      by (rule tree_result)
    from Cons.IH[of "lodash_union reqs bs" k "advance w ds (length bs)"]
    obtain ds' m where r: "list_all is_schema_diag ds'"
      "each_file e opts fmts cb n rest (lodash_union reqs bs, k, True) (advance w ds (length bs))
         = advance (advance w ds (length bs)) ds' m" by blast
    have "list_all is_schema_diag (ds @ ds')" using t(2) r(1) by simp
    moreover have "each_file e opts fmts cb n (fl # rest) (reqs, k, True) w
        = advance w (ds @ ds') (length bs + m)"
      unfolding each_file_Inr[OF Inr t(1)] using r(2) by simp
    ultimately show ?thesis by blast
  qed
qed

lemma first_error_nonempty: "first_error e fs = Some err \<Longrightarrow> fs \<noteq> []"
  by (cases fs) auto

lemma each_file_failure:
  assumes "first_error e fs = Some err" and "k + length fs \<le> n"
  shows "\<exists>ds m ds' m'. list_all is_schema_diag ds \<and> list_all is_schema_diag ds'
      \<and> each_file e opts fmts cb n fs (reqs, k, False) w
          = advance (console_log (''Error parsing: '' @ err) (advance w ds m)) ds' m'"
  using assms
proof (induction fs arbitrary: reqs k w)
  case Nil
  then show ?case by simp
next
  case (Cons fl rest)
  show ?case
  proof (cases "loadApi e fl")
    case (Inl err')
    with Cons.prems(1) have e: "err' = err" by simp
    from each_file_called[of e opts fmts cb n rest reqs k "console_log (''Error parsing: '' @ err) w"]
    obtain ds' m' where r: "list_all is_schema_diag ds'"
      "each_file e opts fmts cb n rest (reqs, k, True) (console_log (''Error parsing: '' @ err) w)
         = advance (console_log (''Error parsing: '' @ err) w) ds' m'" by blast
    have "each_file e opts fmts cb n (fl # rest) (reqs, k, False) w
        = advance (console_log (''Error parsing: '' @ err) (advance w [] 0)) ds' m'"
      unfolding each_file_Inl[OF Inl] using r(2) e by simp
    moreover have "list_all is_schema_diag []" by simp
    ultimately show ?thesis using r(1) by blast
  next
    case (Inr data)
    with Cons.prems(1) have fe: "first_error e rest = Some err" by simp
    then have "rest \<noteq> []" by (rule first_error_nonempty)
    then have "length rest \<noteq> 0" by simp
    with Cons.prems(2) have nk: "\<not> n \<le> Suc k" and k': "Suc k + length rest \<le> n"
      by (simp_all del: length_0_conv length_greater_0_conv)
    obtain bs ds0 where t:
      "getRamlRequestsToMock (JSON_parse e) (root data) (base_uri opts data) fmts fl w
         = (bs, advance w ds0 (length bs))" "list_all is_schema_diag ds0"
      by (rule tree_result)
    from Cons.IH[OF fe k', of "lodash_union reqs bs" "advance w ds0 (length bs)"]
    obtain ds m ds' m' where r: "list_all is_schema_diag ds" "list_all is_schema_diag ds'"
      "each_file e opts fmts cb n rest (lodash_union reqs bs, Suc k, False) (advance w ds0 (length bs))
         = advance (console_log (''Error parsing: '' @ err) (advance (advance w ds0 (length bs)) ds m)) ds' m'"
      by blast
    have "each_file e opts fmts cb n (fl # rest) (reqs, k, False) w
        = advance (console_log (''Error parsing: '' @ err) (advance w (ds0 @ ds) (length bs + m))) ds' m'"
      unfolding each_file_Inr[OF Inr t(1)] using r(3) nk by simp
    moreover have "list_all is_schema_diag (ds0 @ ds)" using t(2) r(1) by simp
    ultimately show ?thesis using r(2) by blast
  qed
qed

lemma each_file_success:
  assumes "first_error e fs = None" and "fs \<noteq> []" and "k + length fs = n"
    and "a \<le> allocated w" and "map oid reqs = [a ..< allocated w]"
  shows "\<exists>bs ds. list_all is_schema_diag ds
      \<and> map bundle_summary bs = concat (map (file_bundles e opts) fs)
      \<and> map oid (reqs @ bs) = [a ..< allocated w + length bs]
      \<and> each_file e opts fmts cb n fs (reqs, k, False) w
          = deliver cb (reqs @ bs) (advance w ds (length bs))"
  using assms
proof (induction fs arbitrary: reqs k w)
  case Nil
  then show ?case by simp
next
  case (Cons fl rest)
  from Cons.prems(1) obtain data where Inr: "loadApi e fl = Inr data"
    by (cases "loadApi e fl") auto
  with Cons.prems(1) have fe: "first_error e rest = None" by simp
  obtain bs0 ds0 where t:
    "getRamlRequestsToMock (JSON_parse e) (root data) (base_uri opts data) fmts fl w
       = (bs0, advance w ds0 (length bs0))" "list_all is_schema_diag ds0"
    "map oid bs0 = [allocated w ..< allocated w + length bs0]"
    "map bundle_summary bs0 = node_bundles (root data) (base_uri opts data)"
    by (rule tree_result)
  have u: "lodash_union reqs bs0 = reqs @ bs0"
    using Cons.prems(4,5) t(3)
    by (intro lodash_union_upt[of _ a "allocated w" _ "allocated w + length bs0"]) simp_all
  have o: "map oid (reqs @ bs0) = [a ..< allocated w + length bs0]"
    using Cons.prems(4,5) t(3) upt_add_eq_append[of a "allocated w" "length bs0"] by simp
  have fb: "file_bundles e opts fl = map bundle_summary bs0"
    using Inr t(4) by (simp add: file_bundles_def)
  show ?case
  proof (cases "rest = []")
    case True
    with Cons.prems(3) have "n \<le> Suc k" by simp
    then have "each_file e opts fmts cb n (fl # rest) (reqs, k, False) w
        = deliver cb (reqs @ bs0) (advance w ds0 (length bs0))"
      unfolding each_file_Inr[OF Inr t(1)] using True u by (simp add: deliver_def)
    moreover have "map bundle_summary bs0 = concat (map (file_bundles e opts) (fl # rest))"
      using True fb by simp
    ultimately show ?thesis using t(2) o by blast
  next
    case False
    then have "length rest \<noteq> 0" by simp
    with Cons.prems(3) have nk: "\<not> n \<le> Suc k" and k': "Suc k + length rest = n"
      by (simp_all del: length_0_conv length_greater_0_conv)
    have a': "a \<le> allocated (advance w ds0 (length bs0))" using Cons.prems(4) by simp
    have o': "map oid (reqs @ bs0) = [a ..< allocated (advance w ds0 (length bs0))]"
      using o by simp
    from Cons.IH[OF fe False k' a' o']
    obtain bs ds where r: "list_all is_schema_diag ds"
      "map bundle_summary bs = concat (map (file_bundles e opts) rest)"
      "map oid ((reqs @ bs0) @ bs) = [a ..< allocated (advance w ds0 (length bs0)) + length bs]"
      "each_file e opts fmts cb n rest (reqs @ bs0, Suc k, False) (advance w ds0 (length bs0))
          = deliver cb ((reqs @ bs0) @ bs) (advance (advance w ds0 (length bs0)) ds (length bs))"
      by blast
    have "each_file e opts fmts cb n (fl # rest) (reqs, k, False) w
        = deliver cb (reqs @ (bs0 @ bs)) (advance w (ds0 @ ds) (length (bs0 @ bs)))"
      unfolding each_file_Inr[OF Inr t(1)] using r(4) nk u by simp
    moreover have "map bundle_summary (bs0 @ bs) = concat (map (file_bundles e opts) (fl # rest))"
      using r(2) fb by simp
    moreover have "map oid (reqs @ (bs0 @ bs)) = [a ..< allocated w + length (bs0 @ bs)]"
      using r(3) by (simp add: add.assoc)
    moreover have "list_all is_schema_diag (ds0 @ ds)" using t(2) r(1) by simp
    ultimately show ?thesis by blast
  qed
qed

subsection \<open>The default code of every bundle\<close>

lemma consistent_method_summary: "consistent (method_summary u m)"
  by (auto simp: consistent_def method_summary_def Let_def)

lemma consistent_node_bundles:
  "\<forall>s \<in> set (node_bundles d u). consistent s"
  "\<forall>s \<in> set (nodes_bundles ds u). consistent s"
  by (induction d u and ds u rule: node_bundles_nodes_bundles.induct)
     (auto simp: Let_def consistent_method_summary split: option.splits)

lemma tree_default_codes:
  assumes "b \<in> set (fst (getRamlRequestsToMock parse d u fmts f w))"
  shows "defaultCode b = lowest_2xx (map fst (responses b))"
proof -
  obtain bs ds where t: "getRamlRequestsToMock parse d u fmts f w = (bs, advance w ds (length bs))"
    "map bundle_summary bs = node_bundles d u" by (rule tree_result)
  from assms t(1) have "bundle_summary b \<in> set (map bundle_summary bs)" by simp
  then have "consistent (bundle_summary b)" using consistent_node_bundles(1) t(2) by simp
  then obtain l where "fst ` set (responses b) = set l" "defaultCode b = lowest_2xx l"
    by (auto simp: consistent_def bundle_summary_def)
  then show ?thesis using lowest_2xx_set[of "map fst (responses b)" l] by simp
qed

text \<open>
  C3: the bundle built for a method has as \<open>defaultCode\<close> the lowest 2xx code among the
  codes of its response candidates, every candidate's code is a key of its response map
  and of its example map, and with no 2xx candidate \<open>defaultCode\<close> and the default mock and
  example stay unset. The lowest 2xx code of a list is one of its 2xx codes, not above any
  other, it is unset exactly when the list has no 2xx code, and it depends on the codes
  only, not on their order (404, 201, 200 give 200). Every bundle that the traversal of a
  tree returns has as \<open>defaultCode\<close> the lowest 2xx code of the keys of its response map.
\<close>

theorem default_code_is_lowest_2xx:
  "(eligible m \<and> m_responses m = Some rs \<longrightarrow>
      (\<exists>b. fst (mock_method parse u fmts f m w) = [b]
           \<and> defaultCode b = lowest_2xx (candidate_codes rs)
           \<and> fst ` set (responses b) = set (candidate_codes rs)
           \<and> fst ` set (examples b) = set (candidate_codes rs)
           \<and> (lowest_2xx (candidate_codes rs) = None \<longrightarrow> mock b = None \<and> mock_example b = None)))
   \<and> (\<forall>k. lowest_2xx cs = Some k \<longrightarrow>
          k \<in> set cs \<and> is_2xx k \<and> (\<forall>c \<in> set cs. is_2xx c \<longrightarrow> \<not> js_gt k c))
   \<and> (lowest_2xx cs = None) = (\<forall>c \<in> set cs. \<not> is_2xx c)
   \<and> (set cs' = set cs \<longrightarrow> lowest_2xx cs' = lowest_2xx cs)
   \<and> (\<forall>b \<in> set (fst (getRamlRequestsToMock parse d u fmts f w)).
          defaultCode b = lowest_2xx (map fst (responses b)))"
proof (intro conjI)
  show "eligible m \<and> m_responses m = Some rs \<longrightarrow>
      (\<exists>b. fst (mock_method parse u fmts f m w) = [b]
           \<and> defaultCode b = lowest_2xx (candidate_codes rs)
           \<and> fst ` set (responses b) = set (candidate_codes rs)
           \<and> fst ` set (examples b) = set (candidate_codes rs)
           \<and> (lowest_2xx (candidate_codes rs) = None \<longrightarrow> mock b = None \<and> mock_example b = None))"
    by (intro impI, elim conjE, rule mock_method_bundle)
  show "\<forall>k. lowest_2xx cs = Some k \<longrightarrow>
          k \<in> set cs \<and> is_2xx k \<and> (\<forall>c \<in> set cs. is_2xx c \<longrightarrow> \<not> js_gt k c)"
    using lowest_2xx_Some by blast
  show "(lowest_2xx cs = None) = (\<forall>c \<in> set cs. \<not> is_2xx c)" by (rule lowest_2xx_None)
  show "set cs' = set cs \<longrightarrow> lowest_2xx cs' = lowest_2xx cs" using lowest_2xx_set by blast
  show "\<forall>b \<in> set (fst (getRamlRequestsToMock parse d u fmts f w)).
          defaultCode b = lowest_2xx (map fst (responses b))"
    using tree_default_codes by blast
qed

lemma codes3: "candidate_codes responses3 = [Fin 404, Fin 201, Fin 200]"
  by code_simp

lemma low3: "lowest_2xx [Fin 404, Fin 201, Fin 200] = Some (Fin 200)"
  by (simp add: lowest_2xx_def)

lemma elig3: "eligible \<lparr>m_method = ''GET'', m_responses = Some responses3\<rparr>"
  by code_simp

text \<open>The responses 404, 201, 200: the default code is 200 and all three are kept.\<close>

theorem default_code_is_lowest_2xx_witness:
  "\<exists>b. fst (mock_method (\<lambda>s. None) ''/ping'' [] ''a.raml''
              \<lparr>m_method = ''GET'', m_responses = Some responses3\<rparr> world0) = [b]
       \<and> defaultCode b = Some (Fin 200)
       \<and> fst ` set (responses b) = {Fin 404, Fin 201, Fin 200}"
proof -
  have r: "m_responses \<lparr>m_method = ''GET'', m_responses = Some responses3\<rparr> = Some responses3"
    by simp
  note t = default_code_is_lowest_2xx[where m = "\<lparr>m_method = ''GET'', m_responses = Some responses3\<rparr>"
      and rs = responses3 and parse = "\<lambda>s. None" and u = "''/ping''"
      and fmts = "[]" and f = "''a.raml''" and w = world0]
  from mp[OF conjunct1[OF t] conjI[OF elig3 r]]
  obtain b where "fst (mock_method (\<lambda>s. None) ''/ping'' [] ''a.raml''
              \<lparr>m_method = ''GET'', m_responses = Some responses3\<rparr> world0) = [b]"
    and "defaultCode b = lowest_2xx (candidate_codes responses3)"
    and "fst ` set (responses b) = set (candidate_codes responses3)"
    by (elim exE conjE)
  then show ?thesis by (simp add: codes3 low3)
qed

subsection \<open>What the caller receives\<close>

lemma first_error_None_iff: "(first_error e fs = None) = (\<forall>f \<in> set fs. \<not> isl (loadApi e f))"
  by (induction fs) (auto split: sum.splits)

lemma first_error_Some:
  "f \<in> set fs \<Longrightarrow> isl (loadApi e f) \<Longrightarrow> \<exists>err. first_error e fs = Some err"
  using first_error_None_iff[of e fs] by (cases "first_error e fs") auto

lemma no_schema_diag: "list_all is_schema_diag ds \<Longrightarrow> filter (\<lambda>x. \<not> is_schema_diag x) ds = []"
  by (induction ds) auto

text \<open>
  C2, as amended: when the load of one of the files fails (and every load that was started
  settles), the callback is not invoked at all, neither with a partial collection nor with
  the error, and nothing is thrown; the only outcome besides schema diagnostics is one line
  on the console, \<open>Error parsing:\<close> followed by the error of the first load that failed.
\<close>

theorem parse_failure_is_only_logged:
  assumes "f \<in> set (glob_sync e fs)" and "isl (loadApi e f)"
    and "mset (arrival e (glob_sync e fs)) = mset (glob_sync e fs)"
  shows "\<exists>err. first_error e (arrival e (glob_sync e fs)) = Some err
     \<and> fst (generateFromFiles e fs opts cb w) = None
     \<and> callback_calls (snd (generateFromFiles e fs opts cb w)) = callback_calls w
     \<and> uncaught (snd (generateFromFiles e fs opts cb w)) = uncaught w
     \<and> filter (\<lambda>x. \<not> is_schema_diag x) (console (snd (generateFromFiles e fs opts cb w)))
         = filter (\<lambda>x. \<not> is_schema_diag x) (console w) @ [Console_log (''Error parsing: '' @ err)]"
proof -
  define g where "g = glob_sync e fs"
  define fmts where "fmts = (case formats opts of None \<Rightarrow> [] | Some f \<Rightarrow> f)"
  define w0 where "w0 = w\<lparr>parser_calls := parser_calls w @ g\<rparr>"
  have ne: "g \<noteq> []" using assms(1) by (auto simp: g_def)
  have "set (arrival e g) = set g" using assms(3) unfolding g_def by (rule mset_eq_setD)
  then have "f \<in> set (arrival e g)" using assms(1) by (simp add: g_def)
  then obtain err where err: "first_error e (arrival e g) = Some err"
    using first_error_Some assms(2) by blast
  have "length (arrival e g) = length g" using assms(3) unfolding g_def by (rule mset_eq_length)
  then have len: "0 + length (arrival e g) \<le> length g" by simp
  from each_file_failure[OF err len, of opts fmts cb "[]" w0]
  obtain ds m ds' m' where r: "list_all is_schema_diag ds" "list_all is_schema_diag ds'"
    "each_file e opts fmts cb (length g) (arrival e g) ([], 0, False) w0
       = advance (console_log (''Error parsing: '' @ err) (advance w0 ds m)) ds' m'"
    by blast
  have gf: "generateFromFiles e fs opts cb w
      = (None, advance (console_log (''Error parsing: '' @ err) (advance w0 ds m)) ds' m')"
    using ne r(3) by (simp add: generateFromFiles_def Let_def g_def[symmetric] fmts_def[symmetric] w0_def)
  show ?thesis
  proof (intro exI[of _ err] conjI)
    show "first_error e (arrival e (glob_sync e fs)) = Some err" using err by (simp add: g_def)
    show "fst (generateFromFiles e fs opts cb w) = None" by (simp add: gf)
    show "callback_calls (snd (generateFromFiles e fs opts cb w)) = callback_calls w"
      by (simp add: gf advance_def console_log_def w0_def)
    show "uncaught (snd (generateFromFiles e fs opts cb w)) = uncaught w"
      by (simp add: gf advance_def console_log_def w0_def)
    show "filter (\<lambda>x. \<not> is_schema_diag x) (console (snd (generateFromFiles e fs opts cb w)))
         = filter (\<lambda>x. \<not> is_schema_diag x) (console w) @ [Console_log (''Error parsing: '' @ err)]"
      using no_schema_diag[OF r(1)] no_schema_diag[OF r(2)]
      by (simp add: gf advance_def console_log_def w0_def)
  qed
qed

text \<open>
  With \<open>a.raml\<close> loading and \<open>c.raml\<close> failing, the callback is not invoked and the error
  is logged.
\<close>

theorem parse_failure_is_only_logged_witness:
  "callback_calls (snd (generateFromFiles env0 [''a.raml'', ''c.raml''] (options0 []) Function world0)) = []
   \<and> filter (\<lambda>x. \<not> is_schema_diag x)
        (console (snd (generateFromFiles env0 [''a.raml'', ''c.raml''] (options0 []) Function world0)))
      = [Console_log ''Error parsing: unexpected token'']"
proof -
  have 1: "''c.raml'' \<in> set (glob_sync env0 [''a.raml'', ''c.raml''])" by (simp add: env0_def)
  have 2: "isl (loadApi env0 ''c.raml'')" by (simp add: env0_def)
  have 3: "mset (arrival env0 (glob_sync env0 [''a.raml'', ''c.raml'']))
            = mset (glob_sync env0 [''a.raml'', ''c.raml''])" by (simp add: env0_def)
  have 4: "first_error env0 (arrival env0 (glob_sync env0 [''a.raml'', ''c.raml''])) = Some ''unexpected token''"
    by (simp add: env0_def)
  from parse_failure_is_only_logged[OF 1 2 3, of "options0 []" Function world0] 4
  show ?thesis by (auto simp: world0_def)
qed

text \<open>
  C2 as stated fails: the caller's completion function does not receive the error. With
  one file that fails among two, \<open>generate\<close> never invokes the callback and throws nothing;
  the error only reaches the console.
\<close>

theorem callback_not_invoked_on_parse_failure:
  "callback_calls (generate env0 (Some (options0 [''a.raml'', ''c.raml''])) Function world0) = []
   \<and> uncaught (generate env0 (Some (options0 [''a.raml'', ''c.raml''])) Function world0) = []
   \<and> console (generate env0 (Some (options0 [''a.raml'', ''c.raml''])) Function world0)
       = [Console_log ''Error parsing: unexpected token'']"
  by code_simp

text \<open>
  C1, as amended: when every file parses, the callback receives one collection, which
  holds one bundle for each eligible method node of each file, in the order the loads
  settle and the trees are walked, with the node's resolved URI, its verb and the codes of
  its own candidates. The bundles are distinct objects; \<open>_.union\<close> compares objects by
  identity, so bundles of equal URI and verb are not merged.
\<close>

theorem one_bundle_per_method_node:
  assumes "\<forall>f \<in> set (glob_sync e fs). \<not> isl (loadApi e f)"
    and "mset (arrival e (glob_sync e fs)) = mset (glob_sync e fs)"
  shows "\<exists>bs. callback_calls (snd (generateFromFiles e fs opts Function w)) = callback_calls w @ [bs]
     \<and> map bundle_summary bs = concat (map (file_bundles e opts) (arrival e (glob_sync e fs)))
     \<and> distinct (map oid bs)
     \<and> fst (generateFromFiles e fs opts Function w) = None"
proof -
  define g where "g = glob_sync e fs"
  define fmts where "fmts = (case formats opts of None \<Rightarrow> [] | Some f \<Rightarrow> f)"
  define w0 where "w0 = w\<lparr>parser_calls := parser_calls w @ g\<rparr>"
  have s: "set (arrival e g) = set g" using assms(2) unfolding g_def by (rule mset_eq_setD)
  have l: "length (arrival e g) = length g" using assms(2) unfolding g_def by (rule mset_eq_length)
  show ?thesis
  proof (cases "g = []")
    case True
    then have "arrival e g = []" using l by simp
    then show ?thesis using True
      by (simp add: generateFromFiles_def Let_def g_def[symmetric] call_callback_def)
  next
    case False
    then have ne: "arrival e g \<noteq> []" using l by auto
    have fe: "first_error e (arrival e g) = None"
      using assms(1) s by (simp add: first_error_None_iff g_def)
    have k: "0 + length (arrival e g) = length g" using l by simp
    have a: "allocated w0 \<le> allocated w0" by simp
    have o: "map oid ([]::RequestMocker list) = [allocated w0 ..< allocated w0]" by simp
    from each_file_success[OF fe ne k a o, of opts fmts Function]
    obtain bs ds where r: "map bundle_summary bs = concat (map (file_bundles e opts) (arrival e g))"
      "map oid ([] @ bs) = [allocated w0 ..< allocated w0 + length bs]"
      "each_file e opts fmts Function (length g) (arrival e g) ([], 0, False) w0
          = deliver Function ([] @ bs) (advance w0 ds (length bs))"
      by blast
    have gf: "generateFromFiles e fs opts Function w
        = (None, deliver Function bs (advance w0 ds (length bs)))"
      using False r(3) by (simp add: generateFromFiles_def Let_def g_def[symmetric] fmts_def[symmetric] w0_def)
    have "distinct (map oid bs)" using r(2) by (simp only: append_Nil distinct_upt)
    moreover have "callback_calls (snd (generateFromFiles e fs opts Function w)) = callback_calls w @ [bs]"
      by (simp add: gf deliver_def call_callback_def advance_def w0_def)
    ultimately show ?thesis using r(1) gf by (auto simp: g_def)
  qed
qed

lemma ping_bundles:
  "concat (map (file_bundles env0 (options0 [])) (arrival env0 (glob_sync env0 [''a.raml'', ''b.raml''])))
     = [(''/ping'', ''GET'', {Fin 200}, Some (Fin 200)), (''/ping'', ''GET'', {Fin 503}, None)]"
  by code_simp

text \<open>
  Two files that both define \<open>GET /ping\<close>, with the codes 200 and 503: two bundles.
\<close>

theorem one_bundle_per_method_node_witness:
  "\<exists>bs. callback_calls (snd (generateFromFiles env0 [''a.raml'', ''b.raml''] (options0 []) Function world0)) = [bs]
     \<and> map bundle_summary bs = [(''/ping'', ''GET'', {Fin 200}, Some (Fin 200)), (''/ping'', ''GET'', {Fin 503}, None)]"
proof -
  have 1: "\<forall>f \<in> set (glob_sync env0 [''a.raml'', ''b.raml'']). \<not> isl (loadApi env0 f)"
    by (simp add: env0_def)
  have 2: "mset (arrival env0 (glob_sync env0 [''a.raml'', ''b.raml'']))
            = mset (glob_sync env0 [''a.raml'', ''b.raml''])" by (simp add: env0_def)
  from one_bundle_per_method_node[OF 1 2, of "options0 []" world0]
  show ?thesis unfolding ping_bundles by (auto simp: world0_def)
qed

text \<open>
  C1 as stated fails: for these two files the delivered collection has two bundles for
  \<open>/ping\<close> and \<open>GET\<close>, one with the code 200 only and one with the code 503 only.
\<close>

theorem same_uri_and_method_twice:
  "map (\<lambda>b. (uri b, httpMethod b, map fst (responses b)))
     (concat (callback_calls (generate env0 (Some (options0 [''a.raml'', ''b.raml''])) Function world0)))
   = [(''/ping'', ''GET'', [Fin 200]), (''/ping'', ''GET'', [Fin 503])]"
  by code_simp

text \<open>
  C8: neither \<open>generate\<close> nor the traversal of a tree calls the schema generator, whatever
  the input. A call happens only when a mock function is called, and then only when the
  candidate's schema is truthy; with a \<open>null\<close> schema the function returns \<open>null\<close>. The
  example function never calls it.
\<close>

theorem generator_not_called_by_construction:
  "generator_calls (generate e options cb w) = generator_calls w
   \<and> generator_calls (snd (getRamlRequestsToMock parse d u fmts f w)) = generator_calls w
   \<and> call_closure gen (Mock_fn c fmts f) w =
       (if truthy (schema c)
        then (gen (schema c) fmts f, w\<lparr>generator_calls := generator_calls w @ [(schema c, fmts, f)]\<rparr>)
        else (Null, w))
   \<and> call_closure gen (Mock_fn (c\<lparr>schema := Null\<rparr>) fmts f) w = (Null, w)
   \<and> snd (call_closure gen (Example_fn c) w) = w"
proof (intro conjI)
  show "generator_calls (generate e options cb w) = generator_calls w"
    by (rule generator_calls_generate)
  obtain bs ds where "getRamlRequestsToMock parse d u fmts f w = (bs, advance w ds (length bs))"
    by (rule tree_result)
  then show "generator_calls (snd (getRamlRequestsToMock parse d u fmts f w)) = generator_calls w"
    by (simp add: advance_def)
qed simp_all

text \<open>
  The run over \<open>a.raml\<close> and \<open>b.raml\<close> from the initial world ends with no generator call.
\<close>

theorem generator_not_called_by_construction_witness:
  "generator_calls (generate env0 (Some (options0 [''a.raml'', ''b.raml''])) Function world0) = []"
  using generator_not_called_by_construction[of env0 "Some (options0 [''a.raml'', ''b.raml''])" Function world0]
  by (simp add: world0_def)

text \<open>
  C5, the code at the failing input: without a callback function \<open>generate\<close> prints the
  diagnostic and the banner (lines 14 to 17, which do not return) and then runs the
  pipeline all the same: the file is parsed, a bundle is built, and calling the missing
  callback throws a TypeError that nothing catches.
\<close>

theorem pipeline_runs_without_callback:
  "console (generate env0 (Some (options0 [''a.raml''])) Not_a_function world0)
     = [Console_error (''[RAML-MOCKER] You must define a callback function:'' @ [CHR 0x0A]), Usage_banner]
   \<and> parser_calls (generate env0 (Some (options0 [''a.raml''])) Not_a_function world0) = [''a.raml'']
   \<and> allocated (generate env0 (Some (options0 [''a.raml''])) Not_a_function world0) = 1
   \<and> uncaught (generate env0 (Some (options0 [''a.raml''])) Not_a_function world0)
       = [''TypeError: callback is not a function'']"
  by code_simp

subsection \<open>The URI of a node\<close>

text \<open>
  What holds of the URI computation: a node with a non-empty \<open>relativeUri\<close> under a parent
  URI that starts with a slash gets a normalised URI, a node without one inherits its
  parent's, and the chain \<open>/users\<close>, \<open>/{id}\<close>, \<open>/orders\<close> resolves as the specification says.
\<close>

lemma collapse_slashes_head: "\<exists>t. collapse_slashes (c # r) = c # t"
proof (induction r arbitrary: c)
  case Nil
  then show ?case by simp
next
  case (Cons d r)
  from Cons.IH[of d] obtain t where "collapse_slashes (d # r) = d # t" by blast
  then show ?case by auto
qed

lemma collapse_slashes_no_double: "\<not> has_double_slash (collapse_slashes s)"
proof (induction s rule: collapse_slashes.induct)
  case (1 c d r)
  obtain t where t: "collapse_slashes (d # r) = d # t" using collapse_slashes_head by blast
  show ?case
  proof (cases "c = CHR ''/'' \<and> d = CHR ''/''")
    case True
    with 1 show ?thesis by simp
  next
    case False
    with 1 t show ?thesis by auto
  qed
qed simp_all

lemma node_uri_normalised:
  assumes "relativeUri d = Some (c # cs)" and "starts_with ''/'' u"
  shows "normalised (node_uri d u)"
proof -
  from assms(2) obtain r where u: "u = CHR ''/'' # r"
    by (cases u) (auto simp: starts_with_def)
  obtain n where n: "node_uri d u = collapse_slashes (u @ ''/'' @ n)"
    using assms(1) by (simp add: node_uri_def Let_def)
  obtain t where "collapse_slashes (CHR ''/'' # (r @ ''/'' @ n)) = CHR ''/'' # t"
    using collapse_slashes_head by blast
  then have "starts_with ''/'' (node_uri d u)" using n u by (simp add: starts_with_def)
  moreover have "\<not> has_double_slash (node_uri d u)" unfolding n by (rule collapse_slashes_no_double)
  ultimately show ?thesis by (simp add: normalised_def)
qed

lemma node_uri_inherits:
  "relativeUri d = None \<or> relativeUri d = Some [] \<Longrightarrow> node_uri d u = u"
  by (auto simp: node_uri_def)

lemma chain_users_id_orders:
  "node_uri (Node (Some ''/orders'') None None None)
     (node_uri (Node (Some ''/{id}'') (Some [(''id'', Null)]) None None)
        (node_uri (Node (Some ''/users'') None None None) ''/''))
   = ''/users/:id/orders''"
  by code_simp

text \<open>
  C7, the code at the failing input: \<open>replace\<close> with a string pattern rewrites the first
  occurrence of \<open>{id}\<close> only.
\<close>

theorem second_placeholder_not_rewritten:
  "node_uri (Node (Some ''/{id}/copies/{id}'') (Some [(''id'', Null)]) None None) ''/users''
     = ''/users/:id/copies/{id}''"
  by code_simp

end
